theory Spec2Isabelle
  imports Main "HOL-Library.AList" "HOL-Library.Sublist"
begin

section \<open>Python strings\<close>

text \<open>
  A Python \<open>str\<close> is modelled as a \<^typ>\<open>string\<close> whose characters are the code points
  below 256 (ASCII and Latin-1); code points from 256 on are outside the model. The
  functions below are the methods of \<open>str\<close> that \<open>main.py\<close> calls, restricted to that
  range.
\<close>

definition is_space :: "char \<Rightarrow> bool" where
  \<comment> \<open>the characters \<open>str.split()\<close>, \<open>str.strip()\<close> and \<open>int()\<close> treat as whitespace\<close>
  "is_space c = ((of_char c :: nat) \<in> {9, 10, 11, 12, 13, 28, 29, 30, 31, 32, 133, 160})"

definition lower_char :: "char \<Rightarrow> char" where
  "lower_char c =
     (let n = (of_char c :: nat)
      in if (65 \<le> n \<and> n \<le> 90) \<or> (192 \<le> n \<and> n \<le> 222 \<and> n \<noteq> 215)
         then char_of (n + 32) else c)"

definition lower :: "string \<Rightarrow> string" where
  \<comment> \<open>\<open>str.lower()\<close>\<close>
  "lower s = map lower_char s"

fun split_acc :: "string \<Rightarrow> string \<Rightarrow> string list" where
  \<comment> \<open>the first argument is the word being read, reversed\<close>
  "split_acc cur [] = (if cur = [] then [] else [rev cur])"
| "split_acc cur (c # cs) =
     (if is_space c
      then (if cur = [] then split_acc [] cs else rev cur # split_acc [] cs)
      else split_acc (c # cur) cs)"

definition split :: "string \<Rightarrow> string list" where
  \<comment> \<open>\<open>str.split()\<close> without arguments: the maximal runs of non-whitespace\<close>
  "split s = split_acc [] s"

fun join :: "string \<Rightarrow> string list \<Rightarrow> string" where
  \<comment> \<open>\<open>sep.join(words)\<close>\<close>
  "join sep [] = []"
| "join sep [w] = w"
| "join sep (w # v # ws) = w @ sep @ join sep (v # ws)"

fun replace_2sp :: "string \<Rightarrow> string" where
  \<comment> \<open>\<open>s.replace("  ", " ")\<close>: non-overlapping occurrences, left to right\<close>
  "replace_2sp (c # d # cs) =
     (if c = CHR '' '' \<and> d = CHR '' '' then CHR '' '' # replace_2sp cs
      else c # replace_2sp (d # cs))"
| "replace_2sp cs = cs"

definition strip :: "string \<Rightarrow> string" where
  \<comment> \<open>\<open>str.strip()\<close>\<close>
  "strip s = rev (dropWhile is_space (rev (dropWhile is_space s)))"

section \<open>Alt text\<close>

definition normalize_product_name :: "string \<Rightarrow> string" where
  "normalize_product_name name =
     (if name = [] then []
      else strip (replace_2sp (lower (join '' '' (split name)))))"

definition placeholder :: string where
  \<comment> \<open>the literal \<open>produto farmaceutico (with a circumflex on the tenth letter)\<close>: that letter is code point 234\<close>
  "placeholder = ''produto farmac'' @ [char_of (234 :: nat)] @ ''utico''"

definition generate_natural_alt_text :: "string \<Rightarrow> int \<Rightarrow> int \<Rightarrow> string" where
  "generate_natural_alt_text product_name image_index total_images =
     (let normalized_name = normalize_product_name product_name
      in if normalized_name = [] then placeholder else normalized_name)"

definition word_ok :: "string \<Rightarrow> bool" where
  \<comment> \<open>a non-empty string without whitespace\<close>
  "word_ok w = (w \<noteq> [] \<and> (\<forall>c \<in> set w. \<not> is_space c))"

text \<open>
  Two names differ only in case and whitespace when one is obtained from the other by
  changing the case of letters, exchanging one whitespace character for another,
  lengthening or shortening a run of whitespace, and adding or removing whitespace at
  either end.
\<close>

inductive case_ws_equiv :: "string \<Rightarrow> string \<Rightarrow> bool" where
  same: "case_ws_equiv s s"
| sym: "case_ws_equiv s t \<Longrightarrow> case_ws_equiv t s"
| trans: "case_ws_equiv s t \<Longrightarrow> case_ws_equiv t u \<Longrightarrow> case_ws_equiv s u"
| case_only: "lower s = lower t \<Longrightarrow> case_ws_equiv s t"
| ws_swap: "is_space c \<Longrightarrow> is_space d \<Longrightarrow> case_ws_equiv (xs @ c # ys) (xs @ d # ys)"
| ws_repeat: "is_space c \<Longrightarrow> is_space d \<Longrightarrow> case_ws_equiv (xs @ c # ys) (xs @ c # d # ys)"
| ws_lead: "is_space c \<Longrightarrow> case_ws_equiv s (c # s)"
| ws_trail: "is_space c \<Longrightarrow> case_ws_equiv s (s @ [c])"


section \<open>Python integers from strings\<close>

definition is_digit :: "char \<Rightarrow> bool" where
  "is_digit c = (48 \<le> (of_char c :: nat) \<and> (of_char c :: nat) \<le> 57)"

definition digit_val :: "char \<Rightarrow> nat" where
  "digit_val c = of_char c - 48"

fun parse_digits :: "nat \<Rightarrow> string \<Rightarrow> nat option" where
  \<comment> \<open>the rest of a decimal literal after a digit; one underscore may stand between two digits\<close>
  "parse_digits acc [] = Some acc"
| "parse_digits acc [c] = (if is_digit c then Some (acc * 10 + digit_val c) else None)"
| "parse_digits acc (c # d # cs) =
     (if is_digit c then parse_digits (acc * 10 + digit_val c) (d # cs)
      else if c = CHR ''_'' \<and> is_digit d then parse_digits (acc * 10 + digit_val d) cs
      else None)"

definition parse_unsigned :: "string \<Rightarrow> nat option" where
  "parse_unsigned s =
     (case s of [] \<Rightarrow> None
      | c # cs \<Rightarrow> if is_digit c then parse_digits (digit_val c) cs else None)"

definition is_int_space :: "char \<Rightarrow> bool" where
  \<comment> \<open>the whitespace \<open>int()\<close> skips around a number: the six ASCII blanks and, of the
      characters from 128 on, those that are whitespace; not the separators 28 to 31,
      which \<open>str.strip()\<close> removes\<close>
  "is_int_space c = ((of_char c :: nat) \<in> {9, 10, 11, 12, 13, 32, 133, 160})"

definition int_strip :: "string \<Rightarrow> string" where
  "int_strip s = rev (dropWhile is_int_space (rev (dropWhile is_int_space s)))"

definition py_int :: "string \<Rightarrow> int option" where
  \<comment> \<open>\<open>int(s)\<close> for a string \<open>s\<close>; \<open>None\<close> stands for \<open>ValueError\<close>. The limit recent
      interpreters put on the number of digits is left out.\<close>
  "py_int s =
     (case int_strip s of [] \<Rightarrow> None
      | c # cs \<Rightarrow>
          if c = CHR ''-'' then map_option (\<lambda>n. - int n) (parse_unsigned cs)
          else if c = CHR ''+'' then map_option int (parse_unsigned cs)
          else map_option int (parse_unsigned (c # cs)))"

section \<open>JSON values and dictionaries\<close>

datatype json = JNull | JBool bool | JInt int | JStr string
  | JList "json list" | JDict "(string \<times> json) list"

type_synonym dict = "(string \<times> json) list"

fun truthy :: "json \<Rightarrow> bool" where
  \<comment> \<open>the truth value Python gives a decoded JSON value\<close>
  "truthy JNull = False"
| "truthy (JBool b) = b"
| "truthy (JInt n) = (n \<noteq> 0)"
| "truthy (JStr s) = (s \<noteq> [])"
| "truthy (JList xs) = (xs \<noteq> [])"
| "truthy (JDict kvs) = (kvs \<noteq> [])"

definition py_or :: "json \<Rightarrow> json \<Rightarrow> json" where
  \<comment> \<open>\<open>a or b\<close>\<close>
  "py_or a b = (if truthy a then a else b)"

definition dict_get_default :: "dict \<Rightarrow> string \<Rightarrow> json \<Rightarrow> json" where
  \<comment> \<open>\<open>d.get(k, default)\<close>\<close>
  "dict_get_default d k dflt = (case map_of d k of None \<Rightarrow> dflt | Some v \<Rightarrow> v)"

definition dict_get :: "dict \<Rightarrow> string \<Rightarrow> json" where
  \<comment> \<open>\<open>d.get(k)\<close>, with \<open>None\<close> as \<open>JNull\<close>\<close>
  "dict_get d k = dict_get_default d k JNull"

definition dict_set :: "dict \<Rightarrow> string \<Rightarrow> json \<Rightarrow> dict" where
  \<comment> \<open>\<open>d[k] = v\<close>: the value is replaced in place, a new key goes last\<close>
  "dict_set d k v = AList.update k v d"

datatype py_error = JSONDecodeError | AttributeError

section \<open>Checkpoint\<close>

record CheckpointManager =
  processed_skus :: "int list"

definition mark_processed :: "CheckpointManager \<Rightarrow> int \<Rightarrow> CheckpointManager" where
  "mark_processed self sku_id =
     (if sku_id \<notin> set (processed_skus self)
      then self\<lparr>processed_skus := processed_skus self @ [sku_id]\<rparr>
      else self)"

definition is_processed :: "CheckpointManager \<Rightarrow> int \<Rightarrow> bool" where
  "is_processed self sku_id = (sku_id \<in> set (processed_skus self))"

section \<open>Input list compaction\<close>

text \<open>
  The input file is the list of its lines, as \<open>readlines()\<close> returns them and
  \<open>writelines()\<close> writes them; \<open>None\<close> is a file that does not exist.
\<close>

definition comment_or_blank :: "string \<Rightarrow> bool" where
  \<comment> \<open>\<open>not stripped or stripped.startswith('#')\<close>\<close>
  "comment_or_blank stripped = (stripped = [] \<or> hd stripped = CHR ''#'')"

fun scan_lines :: "int list \<Rightarrow> string list \<Rightarrow> string list \<Rightarrow> nat \<Rightarrow> string list \<times> nat" where
  \<comment> \<open>the loop over the lines, with \<open>remaining_lines\<close> and \<open>removed_count\<close>\<close>
  "scan_lines processed [] remaining_lines removed_count = (remaining_lines, removed_count)"
| "scan_lines processed (line # lines) remaining_lines removed_count =
     (let stripped = strip line
      in if comment_or_blank stripped
         then scan_lines processed lines (remaining_lines @ [line]) removed_count
         else (case py_int stripped of
             Some sku_id \<Rightarrow>
               if sku_id \<in> set processed
               then scan_lines processed lines remaining_lines (removed_count + 1)
               else scan_lines processed lines (remaining_lines @ [line]) removed_count
           | None \<Rightarrow> scan_lines processed lines (remaining_lines @ [line]) removed_count))"

definition remove_processed_skus_from_file ::
    "int list \<Rightarrow> string list option \<Rightarrow> string list option \<times> bool" where
  \<comment> \<open>the argument \<open>processed\<close> is the source's \<open>processed_skus\<close>; the result is the
      file afterwards, and whether the file was opened for writing\<close>
  "remove_processed_skus_from_file processed file =
     (case file of
        None \<Rightarrow> (None, False)
      | Some lines \<Rightarrow>
          (let (remaining_lines, removed_count) = scan_lines processed lines [] 0
           in if removed_count > 0 then (Some remaining_lines, True) else (Some lines, False)))"

definition line_id :: "string \<Rightarrow> int option" where
  \<comment> \<open>the ID a line of the input file carries, if it is an ID line\<close>
  "line_id line =
     (let stripped = strip line in if comment_or_blank stripped then None else py_int stripped)"

definition removable :: "int list \<Rightarrow> string \<Rightarrow> bool" where
  \<comment> \<open>an ID line whose ID is among the processed ones\<close>
  "removable processed line =
     (case line_id line of Some sku_id \<Rightarrow> sku_id \<in> set processed | None \<Rightarrow> False)"

section \<open>The remote service\<close>

text \<open>
  \<open>SESSION.request\<close> is the boundary of the program. A call either raises or returns a
  response, and what it does may depend on everything sent before; so the remote service
  is a function from the calls made so far, the current one last, to the outcome of the
  current one. The retries of the transport adapter happen below this boundary. Of a
  response the program reads the status code, the \<open>Retry-After\<close> header and the decoded
  body. Bodies are JSON objects or arrays of JSON objects, as the catalog API sends them,
  or no JSON at all; numbers are integers.
\<close>

datatype http_method = GET | PUT

datatype url =
    SkuUrl int                \<comment> \<open>\<open>.../stockkeepingunit/{sku_id}\<close>\<close>
  | SkuFilesUrl int           \<comment> \<open>\<open>.../stockkeepingunit/{sku_id}/file\<close>\<close>
  | SkuFileUrl int json       \<comment> \<open>\<open>.../stockkeepingunit/{sku_id}/file/{file_id}\<close>\<close>

record request =
  req_method :: http_method
  req_url :: url
  req_json :: "dict option"

datatype body = NotJson | JsonDict dict | JsonList "dict list"

record response =
  status_code :: int
  retry_after_header :: "string option"
  body :: body

datatype request_error = Timeout | ConnectionError | OtherError

datatype outcome = Raises request_error | Returns response

type_synonym remote = "request list \<Rightarrow> outcome"

record world =
  requests :: "request list"   \<comment> \<open>the calls of \<open>SESSION.request\<close>, oldest first\<close>
  sleeps :: "int list"         \<comment> \<open>the arguments of \<open>time.sleep\<close> in \<open>safe_request\<close>\<close>

definition response_ok :: "response \<Rightarrow> bool" where
  \<comment> \<open>the truth value of a \<open>requests.Response\<close> is its \<open>ok\<close>: false exactly for the
      statuses from 400 to 599, for which \<open>raise_for_status()\<close> raises\<close>
  "response_ok r = (\<not> (400 \<le> status_code r \<and> status_code r < 600))"

definition retry_after_seconds :: "response \<Rightarrow> int option" where
  \<comment> \<open>\<open>int(response.headers.get('Retry-After', 60))\<close>\<close>
  "retry_after_seconds r = (case retry_after_header r of None \<Rightarrow> Some 60 | Some s \<Rightarrow> py_int s)"

text \<open>
  Every exception inside the \<open>try\<close> of \<open>safe_request\<close> ends in \<open>return None\<close>: those of
  \<open>SESSION.request\<close>, the \<open>ValueError\<close> of \<open>int\<close> on a header that is no number, and what
  \<open>time.sleep\<close> raises. The pause of the rate limiter and the log lines change no result
  and are left out, as are interrupts.

  The function is given twice. \<open>safe_request\<close> is the function on an interpreter without
  limits: it may call itself for ever, so it is a partial function, where \<open>None\<close> at the
  outer level means that it does not return and \<open>Some (None, w)\<close> that it returns \<open>None\<close>.
  \<open>safe_request_limited\<close> further below is the function on the interpreter as it is,
  with its recursion limit and the range of its clock. The two agree on every call that
  stays within these limits (lemma \<open>safe_request_limited_agrees\<close>).
\<close>

partial_function (option) safe_request ::
    "remote \<Rightarrow> request \<Rightarrow> world \<Rightarrow> (response option \<times> world) option" where
  "safe_request remote req w =
     (let w1 = w\<lparr>requests := requests w @ [req]\<rparr>
      in case remote (requests w1) of
           Raises e \<Rightarrow> Some (None, w1)
         | Returns response \<Rightarrow>
             if status_code response = 429
             then (case retry_after_seconds response of
                     None \<Rightarrow> Some (None, w1)
                   | Some retry_after \<Rightarrow>
                       if retry_after < 0 then Some (None, w1)
                       else safe_request remote req (w1\<lparr>sleeps := sleeps w1 @ [retry_after]\<rparr>))
             else Some (Some response, w1))"

definition throttled :: "outcome \<Rightarrow> bool" where
  \<comment> \<open>an outcome after which \<open>safe_request\<close> sleeps and calls itself: a 429 response whose
      wait is a number that \<open>time.sleep\<close> accepts\<close>
  "throttled out =
     (case out of
        Raises e \<Rightarrow> False
      | Returns r \<Rightarrow> status_code r = 429 \<and>
          (case retry_after_seconds r of None \<Rightarrow> False | Some n \<Rightarrow> 0 \<le> n))"

definition answer :: "outcome \<Rightarrow> response option" where
  \<comment> \<open>what \<open>safe_request\<close> returns on an outcome that is not throttled\<close>
  "answer out =
     (case out of
        Raises e \<Rightarrow> None
      | Returns r \<Rightarrow> if status_code r = 429 then None else Some r)"

definition wait_of :: "outcome \<Rightarrow> int" where
  \<comment> \<open>the seconds \<open>safe_request\<close> sleeps after a throttled outcome\<close>
  "wait_of out =
     (case out of
        Raises e \<Rightarrow> 0
      | Returns r \<Rightarrow> (case retry_after_seconds r of None \<Rightarrow> 0 | Some n \<Rightarrow> n))"


definition sleep_raises :: "int \<Rightarrow> bool" where
  \<comment> \<open>\<open>time.sleep(secs)\<close> raises \<open>ValueError\<close> on a negative number and \<open>OverflowError\<close> on
      one beyond its clock of 64-bit nanoseconds\<close>
  "sleep_raises secs = (secs < 0 \<or> 9223372036 < secs)"

fun safe_request_limited ::
    "remote \<Rightarrow> request \<Rightarrow> nat \<Rightarrow> world \<Rightarrow> response option \<times> world" where
  \<comment> \<open>\<open>room\<close> is the number of nested calls of \<open>safe_request\<close> for which the recursion
      limit leaves the frames they need; it is less than \<open>recursion_limit\<close>. A nested call
      without room raises \<open>RecursionError\<close>, which the \<open>except Exception\<close> around the
      recursive call turns into \<open>return None\<close>.\<close>
  "safe_request_limited remote req room w =
     (let w1 = w\<lparr>requests := requests w @ [req]\<rparr>
      in case remote (requests w1) of
           Raises e \<Rightarrow> (None, w1)
         | Returns response \<Rightarrow>
             if status_code response = 429
             then (case retry_after_seconds response of
                     None \<Rightarrow> (None, w1)
                   | Some retry_after \<Rightarrow>
                       if sleep_raises retry_after then (None, w1)
                       else (let w2 = w1\<lparr>sleeps := sleeps w1 @ [retry_after]\<rparr>
                             in case room of
                                  0 \<Rightarrow> (None, w2)
                                | Suc room' \<Rightarrow> safe_request_limited remote req room' w2))
             else (Some response, w1))"

inductive settles :: "remote \<Rightarrow> request \<Rightarrow> request list \<Rightarrow> bool" where
  \<comment> \<open>after the calls \<open>h\<close>, repeating \<open>req\<close> reaches an outcome that is not throttled\<close>
  now: "\<not> throttled (remote (h @ [req])) \<Longrightarrow> settles remote req h"
| later: "throttled (remote (h @ [req])) \<Longrightarrow> settles remote req (h @ [req])
          \<Longrightarrow> settles remote req h"

definition responsive :: "remote \<Rightarrow> bool" where
  \<comment> \<open>the remote service never throttles a call forever\<close>
  "responsive remote = (\<forall>req h. settles remote req h)"



definition fresh :: world where
  \<comment> \<open>no call made, no sleep taken\<close>
  "fresh = \<lparr>requests = [], sleeps = []\<rparr>"

section \<open>Updating the images of an item\<close>

definition update_payload :: "dict \<Rightarrow> string \<Rightarrow> dict" where
  \<comment> \<open>\<open>payload = original_image_data.copy()\<close> with \<open>Label\<close> and \<open>Text\<close> assigned\<close>
  "update_payload original_image_data new_alt_text =
     dict_set (dict_set original_image_data ''Label'' (JStr new_alt_text))
       ''Text'' (JStr new_alt_text)"

definition update_request :: "int \<Rightarrow> dict \<Rightarrow> string \<Rightarrow> request" where
  "update_request sku_id original_image_data new_alt_text =
     \<lparr>req_method = PUT,
      req_url = SkuFileUrl sku_id (dict_get original_image_data ''Id''),
      req_json = Some (update_payload original_image_data new_alt_text)\<rparr>"

definition update_image_alt ::
    "remote \<Rightarrow> int \<Rightarrow> dict \<Rightarrow> string \<Rightarrow> world \<Rightarrow> (bool \<times> world) option" where
  "update_image_alt remote sku_id original_image_data new_alt_text w =
     (case safe_request remote (update_request sku_id original_image_data new_alt_text) w of
        None \<Rightarrow> None
      | Some (response, w') \<Rightarrow>
          (case response of
             None \<Rightarrow> Some (False, w')
           | Some r \<Rightarrow>
               if response_ok r \<and> status_code r = 200 then Some (True, w')
               else if response_ok r \<and> status_code r = 401 then Some (False, w')
               else Some (False, w')))"

definition label_present :: "dict \<Rightarrow> py_error + bool" where
  \<comment> \<open>\<open>img.get('Label') and img.get('Label').strip()\<close>, as a truth value; only a string
      has \<open>strip\<close>\<close>
  "label_present img =
     (let label = dict_get img ''Label''
      in if \<not> truthy label then Inr False
         else (case label of JStr s \<Rightarrow> Inr (strip s \<noteq> []) | _ \<Rightarrow> Inl AttributeError))"

fun all_have_alt :: "dict list \<Rightarrow> py_error + bool" where
  \<comment> \<open>\<open>all(... for img in images)\<close>, which stops at the first image without a label\<close>
  "all_have_alt [] = Inr True"
| "all_have_alt (img # images) =
     (case label_present img of
        Inl e \<Rightarrow> Inl e
      | Inr present \<Rightarrow> if present then all_have_alt images else Inr False)"

definition alt_text_of :: "json \<Rightarrow> int \<Rightarrow> int \<Rightarrow> py_error + string" where
  \<comment> \<open>\<open>generate_natural_alt_text\<close> on the product name as the service sent it: a value
      that is not a string passes \<open>if not name\<close> when it is false, and has no \<open>split\<close>
      otherwise\<close>
  "alt_text_of product_name image_index total_images =
     (case product_name of
        JStr s \<Rightarrow> Inr (generate_natural_alt_text s image_index total_images)
      | _ \<Rightarrow> if truthy product_name then Inl AttributeError else Inr placeholder)"

fun update_loop ::
    "remote \<Rightarrow> int \<Rightarrow> json \<Rightarrow> int \<Rightarrow> int \<Rightarrow> dict list \<Rightarrow> bool \<Rightarrow> world
      \<Rightarrow> ((py_error + bool) \<times> world) option" where
  \<comment> \<open>\<open>for index, img in enumerate(images, start=1)\<close>, with the variable \<open>success\<close>\<close>
  "update_loop remote sku_id product_name total_images index [] success w =
     Some (Inr success, w)"
| "update_loop remote sku_id product_name total_images index (img # images) success w =
     (let current_label = dict_get_default img ''Label'' (JStr [])
      in case alt_text_of product_name index total_images of
           Inl e \<Rightarrow> Some (Inl e, w)
         | Inr new_alt \<Rightarrow>
             if current_label \<noteq> JStr new_alt
             then (case update_image_alt remote sku_id img new_alt w of
                     None \<Rightarrow> None
                   | Some (updated, w') \<Rightarrow>
                       update_loop remote sku_id product_name total_images (index + 1) images
                         (if \<not> updated then False else success) w')
             else update_loop remote sku_id product_name total_images (index + 1) images
                    success w)"

definition images_request :: "int \<Rightarrow> request" where
  "images_request sku_id =
     \<lparr>req_method = GET, req_url = SkuFilesUrl sku_id, req_json = None\<rparr>"

definition process_sku_images ::
    "remote \<Rightarrow> int \<Rightarrow> json \<Rightarrow> world \<Rightarrow> CheckpointManager
      \<Rightarrow> ((py_error + bool) \<times> world \<times> CheckpointManager) option" where
  "process_sku_images remote sku_id product_name w checkpoint =
     (case safe_request remote (images_request sku_id) w of
        None \<Rightarrow> None
      | Some (response, w1) \<Rightarrow>
          (case response of
             None \<Rightarrow> Some (Inr False, w1, checkpoint)
           | Some r \<Rightarrow>
               if \<not> response_ok r then Some (Inr False, w1, checkpoint)
               else if status_code r = 200
               then (case body r of
                   NotJson \<Rightarrow> Some (Inl JSONDecodeError, w1, checkpoint)
                 | JsonDict d \<Rightarrow>
                     if d = [] then Some (Inr True, w1, mark_processed checkpoint sku_id)
                     else Some (Inl AttributeError, w1, checkpoint)
                 | JsonList images \<Rightarrow>
                     if images = [] then Some (Inr True, w1, mark_processed checkpoint sku_id)
                     else (case all_have_alt images of
                         Inl e \<Rightarrow> Some (Inl e, w1, checkpoint)
                       | Inr all_alt \<Rightarrow>
                           if all_alt then Some (Inr True, w1, mark_processed checkpoint sku_id)
                           else (case update_loop remote sku_id product_name
                                        (int (length images)) 1 images True w1 of
                               None \<Rightarrow> None
                             | Some (Inl e, w2) \<Rightarrow> Some (Inl e, w2, checkpoint)
                             | Some (Inr success, w2) \<Rightarrow>
                                 Some (Inr success, w2,
                                   if success then mark_processed checkpoint sku_id
                                   else checkpoint))))
               else if status_code r = 404
               then Some (Inr True, w1, mark_processed checkpoint sku_id)
               else Some (Inr False, w1, checkpoint)))"

section \<open>Processing an item\<close>

definition details_request :: "int \<Rightarrow> request" where
  "details_request sku_id = \<lparr>req_method = GET, req_url = SkuUrl sku_id, req_json = None\<rparr>"

definition get_sku_details ::
    "remote \<Rightarrow> int \<Rightarrow> world \<Rightarrow> ((py_error + json \<times> json) \<times> world) option" where
  "get_sku_details remote sku_id w =
     (case safe_request remote (details_request sku_id) w of
        None \<Rightarrow> None
      | Some (response, w') \<Rightarrow>
          (case response of
             None \<Rightarrow> Some (Inr (JNull, JNull), w')
           | Some r \<Rightarrow>
               if response_ok r \<and> status_code r = 200
               then (case body r of
                   NotJson \<Rightarrow> Some (Inl JSONDecodeError, w')
                 | JsonList xs \<Rightarrow> Some (Inl AttributeError, w')
                 | JsonDict data \<Rightarrow>
                     Some (Inr (py_or (py_or (dict_get data ''ProductName'')
                                          (dict_get data ''NameComplete''))
                                  (dict_get data ''Name''),
                                dict_get data ''RefId''), w'))
               else Some (Inr (JNull, JNull), w')))"

definition process_single_sku ::
    "remote \<Rightarrow> int \<Rightarrow> world \<Rightarrow> CheckpointManager
      \<Rightarrow> ((py_error + bool) \<times> world \<times> CheckpointManager) option" where
  "process_single_sku remote sku_id w checkpoint =
     (if is_processed checkpoint sku_id then Some (Inr True, w, checkpoint)
      else (case get_sku_details remote sku_id w of
          None \<Rightarrow> None
        | Some (Inl e, w') \<Rightarrow> Some (Inl e, w', checkpoint)
        | Some (Inr (product_name, ref_id), w') \<Rightarrow>
            if truthy product_name
            then process_sku_images remote sku_id product_name w' checkpoint
            else Some (Inr True, w', mark_processed checkpoint sku_id)))"

fun process_all ::
    "remote \<Rightarrow> int list \<Rightarrow> world \<Rightarrow> CheckpointManager \<Rightarrow> (world \<times> CheckpointManager) option" where
  \<comment> \<open>the tasks the runner submits, one per ID, run one after the other; what a task
      returns or raises is not read by the runner\<close>
  "process_all remote [] w checkpoint = Some (w, checkpoint)"
| "process_all remote (sku_id # sku_ids) w checkpoint =
     (case process_single_sku remote sku_id w checkpoint of
        None \<Rightarrow> None
      | Some (result, w', checkpoint') \<Rightarrow> process_all remote sku_ids w' checkpoint')"

definition put_requests :: "world \<Rightarrow> request list" where
  \<comment> \<open>the update calls among the calls made\<close>
  "put_requests w = filter (\<lambda>req. req_method req = PUT) (requests w)"

section \<open>Required updates and labelled images\<close>

definition needs_update :: "string \<Rightarrow> dict \<Rightarrow> bool" where
  \<comment> \<open>the current label of the image differs from the target text\<close>
  "needs_update new_alt img = (dict_get_default img ''Label'' (JStr []) \<noteq> JStr new_alt)"

fun run_updates ::
    "remote \<Rightarrow> int \<Rightarrow> string \<Rightarrow> dict list \<Rightarrow> world \<Rightarrow> (bool list \<times> world) option" where
  \<comment> \<open>\<open>update_image_alt\<close> on each image of a list in turn, with the results in order\<close>
  "run_updates remote sku_id new_alt [] w = Some ([], w)"
| "run_updates remote sku_id new_alt (img # images) w =
     (case update_image_alt remote sku_id img new_alt w of
        None \<Rightarrow> None
      | Some (updated, w') \<Rightarrow>
          (case run_updates remote sku_id new_alt images w' of
             None \<Rightarrow> None
           | Some (results, w'') \<Rightarrow> Some (updated # results, w'')))"

definition labelled_image :: "dict \<Rightarrow> bool" where
  \<comment> \<open>the image carries a label that is a string with something other than whitespace\<close>
  "labelled_image img = (case dict_get img ''Label'' of JStr s \<Rightarrow> strip s \<noteq> [] | _ \<Rightarrow> False)"

definition all_labelled :: "remote \<Rightarrow> bool" where
  \<comment> \<open>every image the service lists for any item is labelled\<close>
  "all_labelled remote =
     (\<forall>h sku_id r images.
        remote (h @ [images_request sku_id]) = Returns r \<longrightarrow> status_code r = 200 \<longrightarrow>
        body r = JsonList images \<longrightarrow> (\<forall>img \<in> set images. labelled_image img))"

section \<open>Example services\<close>

definition always_ok :: remote where
  \<comment> \<open>a service that answers every call with status 200 and an empty object\<close>
  "always_ok = (\<lambda>h. Returns \<lparr>status_code = 200, retry_after_header = None, body = JsonDict []\<rparr>)"

definition images_not_found :: remote where
  \<comment> \<open>a service that knows the name of every item and answers 404 to everything else\<close>
  "images_not_found =
     (\<lambda>h. case req_url (last h) of
          SkuUrl sku_id \<Rightarrow>
            Returns \<lparr>status_code = 200, retry_after_header = None,
                     body = JsonDict [(''Name'', JStr ''Dipirona 500mg'')]\<rparr>
        | _ \<Rightarrow> Returns \<lparr>status_code = 404, retry_after_header = None, body = NotJson\<rparr>)"

definition one_update_refused :: remote where
  \<comment> \<open>a service on which every item has three images, the first without a label, the
      second with an old label and the third with the label wanted; it refuses updates of
      image 1 with status 401 and accepts all other updates\<close>
  "one_update_refused =
     (\<lambda>h. case req_url (last h) of
          SkuUrl sku_id \<Rightarrow>
            Returns \<lparr>status_code = 200, retry_after_header = None,
                     body = JsonDict [(''ProductName'', JStr ''Dipirona  500MG'')]\<rparr>
        | SkuFilesUrl sku_id \<Rightarrow>
            Returns \<lparr>status_code = 200, retry_after_header = None,
                     body = JsonList
                       [[(''Id'', JInt 1), (''Label'', JNull)],
                        [(''Id'', JInt 2), (''Label'', JStr ''old'')],
                        [(''Id'', JInt 3), (''Label'', JStr ''dipirona 500mg'')]]\<rparr>
        | SkuFileUrl sku_id file_id \<Rightarrow>
            if file_id = JInt 1
            then Returns \<lparr>status_code = 401, retry_after_header = None, body = NotJson\<rparr>
            else Returns \<lparr>status_code = 200, retry_after_header = None, body = JsonDict []\<rparr>)"

definition unlabelled_catalog :: remote where
  \<comment> \<open>a service on which every item has one image with an empty label; it accepts
      updates, and fails with status 500 on the image list of item 200\<close>
  "unlabelled_catalog =
     (\<lambda>h. case req_url (last h) of
          SkuUrl sku_id \<Rightarrow>
            Returns \<lparr>status_code = 200, retry_after_header = None,
                     body = JsonDict [(''ProductName'', JStr ''Dipirona  500MG'')]\<rparr>
        | SkuFilesUrl sku_id \<Rightarrow>
            if sku_id = 200
            then Returns \<lparr>status_code = 500, retry_after_header = None, body = NotJson\<rparr>
            else Returns \<lparr>status_code = 200, retry_after_header = None,
                          body = JsonList [[(''Id'', JInt 1), (''Label'', JStr [])]]\<rparr>
        | SkuFileUrl sku_id file_id \<Rightarrow>
            Returns \<lparr>status_code = 200, retry_after_header = None, body = JsonDict []\<rparr>)"

definition labelled_catalog :: remote where
  \<comment> \<open>the same service once the image of every item carries the wanted label\<close>
  "labelled_catalog =
     (\<lambda>h. case req_url (last h) of
          SkuUrl sku_id \<Rightarrow>
            Returns \<lparr>status_code = 200, retry_after_header = None,
                     body = JsonDict [(''ProductName'', JStr ''Dipirona  500MG'')]\<rparr>
        | SkuFilesUrl sku_id \<Rightarrow>
            Returns \<lparr>status_code = 200, retry_after_header = None,
                     body = JsonList [[(''Id'', JInt 1), (''Label'', JStr ''dipirona 500mg'')]]\<rparr>
        | SkuFileUrl sku_id file_id \<Rightarrow>
            Returns \<lparr>status_code = 200, retry_after_header = None, body = JsonDict []\<rparr>)"

section \<open>Normalization is insensitive to case and whitespace\<close>

lemma is_space_lower_char [simp]: "is_space (lower_char c) = is_space c"
  unfolding is_space_def lower_char_def Let_def
  by (auto simp: of_char_of)

lemma space_is_space [simp]: "is_space CHR '' ''"
  by (simp add: is_space_def)

lemma lower_char_fix: "is_space c \<Longrightarrow> lower_char c = c"
proof -
  define n where "n = (of_char c :: nat)"
  assume "is_space c"
  then have "n \<in> {9, 10, 11, 12, 13, 28, 29, 30, 31, 32, 133, 160}"
    by (simp add: is_space_def n_def)
  then have "\<not> ((65 \<le> n \<and> n \<le> 90) \<or> (192 \<le> n \<and> n \<le> 222 \<and> n \<noteq> 215))"
    by (elim insertE) simp_all
  then show ?thesis
    unfolding lower_char_def Let_def n_def by (simp only: if_False)
qed

lemma lower_char_eq_space [simp]: "lower_char c = CHR '' '' \<longleftrightarrow> c = CHR '' ''"
proof
  assume h: "lower_char c = CHR '' ''"
  have "is_space (lower_char c)" unfolding h by simp
  then have "is_space c" by simp
  then have "lower_char c = c" by (rule lower_char_fix)
  with h show "c = CHR '' ''" by simp
next
  assume "c = CHR '' ''"
  then show "lower_char c = CHR '' ''" by (simp add: lower_char_def)
qed

lemma split_acc_lower: "map lower (split_acc cur s) = split_acc (lower cur) (lower s)"
  by (induction cur s rule: split_acc.induct) (auto simp: lower_def rev_map)



lemma split_acc_words:
  "(\<forall>c \<in> set cur. \<not> is_space c) \<Longrightarrow> w \<in> set (split_acc cur s) \<Longrightarrow> word_ok w"
proof (induction s arbitrary: cur)
  case Nil
  then show ?case by (cases "cur = []") (auto simp: word_ok_def)
next
  case (Cons c cs)
  show ?case
  proof (cases "is_space c")
    case True
    note sp = this
    show ?thesis
    proof (cases "cur = []")
      case True
      with sp Cons.prems have "w \<in> set (split_acc [] cs)" by simp
      then show ?thesis using Cons.IH [of "[]"] by simp
    next
      case False
      with sp Cons.prems have "w = rev cur \<or> w \<in> set (split_acc [] cs)" by simp
      then show ?thesis
      proof
        assume "w = rev cur"
        with False Cons.prems(1) show ?thesis by (simp add: word_ok_def)
      next
        assume "w \<in> set (split_acc [] cs)"
        then show ?thesis using Cons.IH [of "[]"] by simp
      qed
    qed
  next
    case False
    with Cons.prems have "w \<in> set (split_acc (c # cur) cs)" by simp
    moreover from False Cons.prems(1) have "\<forall>d \<in> set (c # cur). \<not> is_space d" by simp
    ultimately show ?thesis using Cons.IH [of "c # cur"] by blast
  qed
qed


lemma split_words: "w \<in> set (split s) \<Longrightarrow> word_ok w"
  unfolding split_def using split_acc_words [of "[]" w s] by simp

lemma word_ok_lower: "word_ok w \<Longrightarrow> word_ok (lower w)"
  by (simp add: word_ok_def lower_def)

lemma lower_join: "lower (join '' '' ws) = join '' '' (map lower ws)"
proof (induction ws rule: induct_list012)
  case (3 w v ws)
  then show ?case by (simp add: lower_def)
qed (simp_all add: lower_def)

lemma word_ok_no_space: "word_ok w \<Longrightarrow> c \<in> set w \<Longrightarrow> c \<noteq> CHR '' ''"
  by (auto simp: word_ok_def)

lemma replace_2sp_word:
  "(\<And>c. c \<in> set w \<Longrightarrow> c \<noteq> CHR '' '') \<Longrightarrow> replace_2sp (w @ r) = w @ replace_2sp r"
proof (induction w)
  case Nil
  then show ?case by simp
next
  case (Cons c w)
  then have c: "c \<noteq> CHR '' ''" and IH: "replace_2sp (w @ r) = w @ replace_2sp r" by simp_all
  show ?case
  proof (cases "w @ r")
    case Nil
    then show ?thesis by simp
  next
    case (Cons d ds)
    have "replace_2sp (c # d # ds) = c # replace_2sp (d # ds)" using c by simp
    then show ?thesis using IH unfolding Cons [symmetric] by simp
  qed
qed


lemma join_Cons_word:
  "word_ok v \<Longrightarrow> \<exists>d r. join '' '' (v # ws) = d # r \<and> \<not> is_space d"
  by (cases v; cases ws) (simp_all add: word_ok_def)

lemma replace_2sp_join:
  "(\<And>w. w \<in> set ws \<Longrightarrow> word_ok w) \<Longrightarrow> replace_2sp (join '' '' ws) = join '' '' ws"
proof (induction ws rule: induct_list012)
  case 1
  then show ?case by simp
next
  case (2 w)
  then show ?case using replace_2sp_word [of w "[]"] by (simp add: word_ok_no_space)
next
  case (3 w v ws)
  have w: "word_ok w" and v: "word_ok v" using 3(3) by simp_all
  have IH: "replace_2sp (join '' '' (v # ws)) = join '' '' (v # ws)"
    using 3(2) 3(3) by simp
  from join_Cons_word [OF v, of ws] obtain d r
    where r: "join '' '' (v # ws) = d # r" and d: "\<not> is_space d" by blast
  from d have d': "d \<noteq> CHR '' ''" by auto
  have "replace_2sp (CHR '' '' # d # r) = CHR '' '' # replace_2sp (d # r)"
    using d' by simp
  then have "replace_2sp (CHR '' '' # join '' '' (v # ws)) = CHR '' '' # join '' '' (v # ws)"
    using IH unfolding r by simp
  moreover have "replace_2sp (w @ CHR '' '' # join '' '' (v # ws))
      = w @ replace_2sp (CHR '' '' # join '' '' (v # ws))"
    using w by (intro replace_2sp_word) (simp add: word_ok_no_space)
  ultimately show ?case by simp
qed

lemma join_last:
  "(\<And>w. w \<in> set ws \<Longrightarrow> word_ok w) \<Longrightarrow> ws \<noteq> [] \<Longrightarrow>
   join '' '' ws \<noteq> [] \<and> \<not> is_space (last (join '' '' ws))"
proof (induction ws rule: induct_list012)
  case 1
  then show ?case by simp
next
  case (2 w)
  then have "word_ok w" by simp
  then show ?case by (simp add: word_ok_def)
next
  case (3 w v ws)
  then have "join '' '' (v # ws) \<noteq> [] \<and> \<not> is_space (last (join '' '' (v # ws)))" by simp
  then show ?case by simp
qed

lemma strip_id:
  assumes "s \<noteq> []" "\<not> is_space (hd s)" "\<not> is_space (last s)"
  shows "strip s = s"
proof -
  from assms obtain c cs where s: "s = c # cs" and c: "\<not> is_space c" by (cases s) auto
  have 1: "dropWhile is_space s = s" using s c by simp
  from assms(1) obtain l ls where ls: "rev s = l # ls" by (cases "rev s") auto
  then have "l = last s" using assms(1) by (metis hd_rev list.sel(1))
  with assms(3) have "dropWhile is_space (l # ls) = l # ls" by simp
  then have 2: "dropWhile is_space (rev s) = rev s" unfolding ls .
  show ?thesis by (simp add: strip_def 1 2)
qed

lemma strip_join:
  assumes "\<And>w. w \<in> set ws \<Longrightarrow> word_ok w"
  shows "strip (join '' '' ws) = join '' '' ws"
proof (cases ws)
  case Nil
  then show ?thesis by (simp add: strip_def)
next
  case (Cons v vs)
  then have v: "word_ok v" using assms by simp
  from join_Cons_word [OF v, of vs] obtain d r
    where r: "join '' '' (v # vs) = d # r" and d: "\<not> is_space d" by blast
  have l: "join '' '' ws \<noteq> [] \<and> \<not> is_space (last (join '' '' ws))"
    using assms Cons by (intro join_last) simp_all
  show ?thesis
    using l r d Cons by (intro strip_id) simp_all
qed

lemma normalize_product_name_eq:
  "normalize_product_name name = join '' '' (map lower (split name))"
proof -
  have ok: "\<And>w. w \<in> set (map lower (split name)) \<Longrightarrow> word_ok w"
    using split_words [of _ name] by (auto intro: word_ok_lower)
  show ?thesis
  proof (cases "name = []")
    case True
    then show ?thesis by (simp add: normalize_product_name_def split_def)
  next
    case False
    have r: "replace_2sp (join '' '' (map lower (split name))) = join '' '' (map lower (split name))"
      using ok by (rule replace_2sp_join)
    have t: "strip (join '' '' (map lower (split name))) = join '' '' (map lower (split name))"
      using ok by (rule strip_join)
    from False show ?thesis
      unfolding normalize_product_name_def lower_join r t by simp
  qed
qed


lemma split_lower: "map lower (split s) = split (lower s)"
  unfolding split_def using split_acc_lower [of "[]" s] by (simp add: lower_def)

lemma split_acc_prefix:
  "(\<And>cur. split_acc cur u = split_acc cur v) \<Longrightarrow> split_acc cur (xs @ u) = split_acc cur (xs @ v)"
  by (induction xs arbitrary: cur) simp_all

lemma split_acc_trailing: "is_space c \<Longrightarrow> split_acc cur (s @ [c]) = split_acc cur s"
  by (induction s arbitrary: cur) simp_all

lemma split_acc_swap:
  "is_space c \<Longrightarrow> is_space d \<Longrightarrow> split_acc cur (c # ys) = split_acc cur (d # ys)"
  by simp

lemma split_acc_repeat:
  "is_space c \<Longrightarrow> is_space d \<Longrightarrow> split_acc cur (c # ys) = split_acc cur (c # d # ys)"
  by simp

lemma lower_app: "lower (xs @ ys) = lower xs @ lower ys"
  by (simp add: lower_def)

lemma lower_Cons: "lower (c # ys) = lower_char c # lower ys"
  by (simp add: lower_def)

lemma case_ws_equiv_words:
  "case_ws_equiv s t \<Longrightarrow> split (lower s) = split (lower t)"
proof (induction rule: case_ws_equiv.induct)
  case (ws_swap c d xs ys)
  then have "\<And>cur. split_acc cur (lower_char c # lower ys) = split_acc cur (lower_char d # lower ys)"
    by simp
  then show ?case
    unfolding split_def lower_app lower_Cons by (rule split_acc_prefix)
next
  case (ws_repeat c d xs ys)
  then have "\<And>cur. split_acc cur (lower_char c # lower ys)
      = split_acc cur (lower_char c # lower_char d # lower ys)"
    by simp
  then show ?case
    unfolding split_def lower_app lower_Cons by (rule split_acc_prefix)
next
  case (ws_lead c s)
  then show ?case by (simp add: split_def lower_Cons)
next
  case (ws_trail c s)
  then have "split_acc [] (lower s @ [lower_char c]) = split_acc [] (lower s)"
    by (intro split_acc_trailing) simp
  then show ?case by (simp add: split_def lower_def)
qed simp_all

lemma normalize_product_name_words:
  "normalize_product_name name = join '' '' (split (lower name))"
  by (simp add: normalize_product_name_eq split_lower)

text \<open>
  Claim C8. Name normalization collapses every run of whitespace to one space, lowercases
  and trims: the result is the lowercased words of the name joined by single spaces.
  Hence two names that differ only in case and whitespace have the same normal form, as
  the two spellings of the paracetamol example do.
\<close>

theorem normalize_case_whitespace_insensitive:
  "(case_ws_equiv a b \<longrightarrow> normalize_product_name a = normalize_product_name b)
   \<and> normalize_product_name name = join '' '' (map lower (split name))
   \<and> normalize_product_name ''  Paracetamol   500MG '' = normalize_product_name ''paracetamol 500mg''"
proof (intro conjI impI)
  assume "case_ws_equiv a b"
  then show "normalize_product_name a = normalize_product_name b"
    by (simp add: normalize_product_name_words case_ws_equiv_words)
next
  show "normalize_product_name name = join '' '' (map lower (split name))"
    by (rule normalize_product_name_eq)
next
  show "normalize_product_name ''  Paracetamol   500MG '' = normalize_product_name ''paracetamol 500mg''"
    by code_simp
qed

theorem normalize_case_whitespace_insensitive_witness:
  "case_ws_equiv ''  Paracetamol   500MG '' ''paracetamol 500mg''
   \<and> normalize_product_name ''  Paracetamol   500MG '' = ''paracetamol 500mg''
   \<and> normalize_product_name ''paracetamol 500mg'' = ''paracetamol 500mg''"
proof -
  have sp: "is_space CHR '' ''" by simp
  have 1: "case_ws_equiv ''  Paracetamol   500MG '' '' Paracetamol   500MG ''"
    using ws_lead [OF sp, of "'' Paracetamol   500MG ''"] by (rule case_ws_equiv.sym)
  have 2: "case_ws_equiv '' Paracetamol   500MG '' ''Paracetamol   500MG ''"
    using ws_lead [OF sp, of "''Paracetamol   500MG ''"] by (rule case_ws_equiv.sym)
  have 3: "case_ws_equiv ''Paracetamol   500MG '' ''Paracetamol   500MG''"
    using ws_trail [OF sp, of "''Paracetamol   500MG''"] by (simp add: case_ws_equiv.sym)
  have 4: "case_ws_equiv ''Paracetamol   500MG'' ''Paracetamol  500MG''"
    using ws_repeat [OF sp sp, of "''Paracetamol''" "'' 500MG''"] by (simp add: case_ws_equiv.sym)
  have 5: "case_ws_equiv ''Paracetamol  500MG'' ''Paracetamol 500MG''"
    using ws_repeat [OF sp sp, of "''Paracetamol''" "''500MG''"] by (simp add: case_ws_equiv.sym)
  have 6: "case_ws_equiv ''Paracetamol 500MG'' ''paracetamol 500mg''"
    by (rule case_only) code_simp
  have e: "case_ws_equiv ''  Paracetamol   500MG '' ''paracetamol 500mg''"
    using 1 2 3 4 5 6 by (blast intro: case_ws_equiv.trans)
  have n: "normalize_product_name ''paracetamol 500mg'' = ''paracetamol 500mg''"
    by code_simp
  from e n normalize_case_whitespace_insensitive
    [of "''  Paracetamol   500MG ''" "''paracetamol 500mg''" "[]"]
  show ?thesis by simp
qed

lemma alt_text_of_independent:
  "alt_text_of product_name image_index total_images = alt_text_of product_name i n"
  by (cases product_name) (simp_all add: alt_text_of_def generate_natural_alt_text_def)

text \<open>
  Claim C10. The generated alt text depends on the product name only: any two choices of
  image index and image count give the same string, also through the call the update loop
  makes for each image; so every image of an item is given the same text.
\<close>

theorem alt_text_independent_of_position:
  "generate_natural_alt_text product_name image_index total_images
     = generate_natural_alt_text product_name image_index' total_images'
   \<and> alt_text_of name image_index total_images = alt_text_of name image_index' total_images'"
  using alt_text_of_independent [of name image_index total_images image_index' total_images']
  by (simp add: generate_natural_alt_text_def)

section \<open>Checkpoint membership\<close>

lemma mark_processed_present:
  "sku_id \<in> set (processed_skus cp) \<Longrightarrow> mark_processed cp sku_id = cp"
  by (simp add: mark_processed_def)

lemma mark_processed_set:
  "set (processed_skus (mark_processed cp sku_id)) = insert sku_id (set (processed_skus cp))"
  by (auto simp: mark_processed_def)

lemma mark_processed_distinct:
  "distinct (processed_skus cp) \<Longrightarrow> distinct (processed_skus (mark_processed cp sku_id))"
  by (simp add: mark_processed_def)

lemma foldl_mark_processed_distinct:
  "distinct (processed_skus cp) \<Longrightarrow> distinct (processed_skus (foldl mark_processed cp ids))"
  by (induction ids arbitrary: cp) (simp_all add: mark_processed_distinct)

text \<open>
  Claim C3. Marking an ID that the checkpoint already holds changes nothing, and a
  checkpoint without duplicates stays without duplicates under any sequence of
  \<open>mark_processed\<close> calls, repeated IDs included; so does the empty checkpoint a run
  starts from.
\<close>

theorem mark_processed_idempotent_duplicate_free:
  "(sku_id \<in> set (processed_skus cp) \<longrightarrow> mark_processed cp sku_id = cp)
   \<and> (distinct (processed_skus cp) \<longrightarrow> distinct (processed_skus (foldl mark_processed cp ids)))
   \<and> distinct (processed_skus (foldl mark_processed \<lparr>processed_skus = []\<rparr> ids))"
  by (simp add: mark_processed_present foldl_mark_processed_distinct)

theorem mark_processed_idempotent_duplicate_free_witness:
  "100 \<in> set (processed_skus \<lparr>processed_skus = [100, 300]\<rparr>)
   \<and> mark_processed \<lparr>processed_skus = [100, 300]\<rparr> 100 = \<lparr>processed_skus = [100, 300]\<rparr>
   \<and> distinct (processed_skus \<lparr>processed_skus = [100, 300]\<rparr>)
   \<and> processed_skus (foldl mark_processed \<lparr>processed_skus = [100, 300]\<rparr> [200, 100, 200])
       = [100, 300, 200]
   \<and> distinct (processed_skus (foldl mark_processed \<lparr>processed_skus = [100, 300]\<rparr> [200, 100, 200]))"
  using mark_processed_idempotent_duplicate_free
    [of 100 "\<lparr>processed_skus = [100, 300]\<rparr>" "[200, 100, 200]"]
  by (simp add: mark_processed_def)

section \<open>Compaction of the input list\<close>

lemma scan_lines_filter:
  "scan_lines processed lines remaining_lines removed_count =
     (remaining_lines @ filter (\<lambda>l. \<not> removable processed l) lines,
      removed_count + length (filter (removable processed) lines))"
proof (induction lines arbitrary: remaining_lines removed_count)
  case Nil
  then show ?case by simp
next
  case (Cons line lines)
  show ?case
  proof (cases "line_id line")
    case None
    then have r: "\<not> removable processed line" by (simp add: removable_def)
    from None show ?thesis
      unfolding scan_lines.simps Let_def
      by (auto simp: Cons.IH r line_id_def Let_def split: if_splits)
  next
    case (Some sku_id)
    then have c: "\<not> comment_or_blank (strip line)" and p: "py_int (strip line) = Some sku_id"
      by (auto simp: line_id_def Let_def split: if_splits)
    have r: "removable processed line = (sku_id \<in> set processed)"
      using Some by (simp add: removable_def)
    show ?thesis
      unfolding scan_lines.simps Let_def
      by (simp add: c p r Cons.IH)
  qed
qed

lemma filter_none: "filter P xs = [] \<longleftrightarrow> (\<forall>x \<in> set xs. \<not> P x)"
  by (simp add: filter_empty_conv)

lemma filter_all: "(\<forall>x \<in> set xs. \<not> P x) \<Longrightarrow> filter (\<lambda>x. \<not> P x) xs = xs"
  by (induction xs) simp_all

text \<open>
  Claim C9. Compaction removes exactly the ID lines whose ID is among the processed ones:
  the file is rewritten with all its other lines (comments and blank lines among them),
  verbatim and in their original order; and when no ID line is removed the file is not
  written.
\<close>

theorem compaction_removes_exactly_processed:
  "remove_processed_skus_from_file processed (Some lines) =
     (if \<exists>l \<in> set lines. removable processed l
      then (Some (filter (\<lambda>l. \<not> removable processed l) lines), True)
      else (Some lines, False))
   \<and> (comment_or_blank (strip l) \<longrightarrow> \<not> removable processed l)
   \<and> (removable processed l \<longleftrightarrow> (\<exists>sku_id \<in> set processed. line_id l = Some sku_id))
   \<and> subseq (filter (\<lambda>l. \<not> removable processed l) lines) lines"
proof (intro conjI)
  show "remove_processed_skus_from_file processed (Some lines) =
     (if \<exists>l \<in> set lines. removable processed l
      then (Some (filter (\<lambda>l. \<not> removable processed l) lines), True)
      else (Some lines, False))"
    unfolding remove_processed_skus_from_file_def
    by (simp add: scan_lines_filter filter_none)
next
  show "comment_or_blank (strip l) \<longrightarrow> \<not> removable processed l"
    by (simp add: removable_def line_id_def)
next
  show "removable processed l \<longleftrightarrow> (\<exists>sku_id \<in> set processed. line_id l = Some sku_id)"
    by (auto simp: removable_def split: option.splits)
next
  show "subseq (filter (\<lambda>l. \<not> removable processed l) lines) lines"
    by simp
qed

theorem compaction_removes_exactly_processed_witness:
  "(\<exists>l \<in> set [''# list\<newline>'', ''100\<newline>'', ''\<newline>'', '' 007 \<newline>'', ''abc\<newline>'', ''200'']. removable [200, 7] l)
   \<and> remove_processed_skus_from_file [200, 7]
         (Some [''# list\<newline>'', ''100\<newline>'', ''\<newline>'', '' 007 \<newline>'', ''abc\<newline>'', ''200''])
       = (Some [''# list\<newline>'', ''100\<newline>'', ''\<newline>'', ''abc\<newline>''], True)
   \<and> comment_or_blank (strip ''# list\<newline>'') \<and> \<not> removable [200, 7] ''# list\<newline>''
   \<and> \<not> (\<exists>l \<in> set [''# list\<newline>'', ''100\<newline>'']. removable [200, 7] l)
   \<and> remove_processed_skus_from_file [200, 7] (Some [''# list\<newline>'', ''100\<newline>''])
       = (Some [''# list\<newline>'', ''100\<newline>''], False)"
proof -
  let ?L = "[''# list\<newline>'', ''100\<newline>'', ''\<newline>'', '' 007 \<newline>'', ''abc\<newline>'', ''200'']"
  have r1: "\<not> removable [200, 7] ''# list\<newline>''" by code_simp
  have r2: "\<not> removable [200, 7] ''100\<newline>''" by code_simp
  have r3: "\<not> removable [200, 7] ''\<newline>''" by code_simp
  have r4: "removable [200, 7] '' 007 \<newline>''" by code_simp
  have r5: "\<not> removable [200, 7] ''abc\<newline>''" by code_simp
  have r6: "removable [200, 7] ''200''" by code_simp
  have c: "comment_or_blank (strip ''# list\<newline>'')" by code_simp
  have a: "remove_processed_skus_from_file [200, 7] (Some ?L)
       = (Some [''# list\<newline>'', ''100\<newline>'', ''\<newline>'', ''abc\<newline>''], True)"
    using compaction_removes_exactly_processed [of "[200, 7]" ?L "''# list\<newline>''"]
    by (simp add: r1 r2 r3 r4 r5 r6)
  have b: "remove_processed_skus_from_file [200, 7] (Some [''# list\<newline>'', ''100\<newline>''])
       = (Some [''# list\<newline>'', ''100\<newline>''], False)"
    using compaction_removes_exactly_processed
      [of "[200, 7]" "[''# list\<newline>'', ''100\<newline>'']" "''# list\<newline>''"]
    by (simp add: r1 r2)
  show ?thesis
    using a b c by (simp add: r1 r2 r3 r4 r5 r6)
qed

section \<open>The client\<close>

lemma safe_request_now:
  assumes "\<not> throttled (remote (requests w @ [req]))"
  shows "safe_request remote req w
    = Some (answer (remote (requests w @ [req])), w\<lparr>requests := requests w @ [req]\<rparr>)"
proof (cases "remote (requests w @ [req])")
  case (Raises e)
  then show ?thesis
    by (subst safe_request.simps) (simp add: answer_def)
next
  case (Returns r)
  with assms show ?thesis
    by (subst safe_request.simps)
       (auto simp: answer_def throttled_def split: option.splits)
qed

lemma safe_request_later:
  assumes "throttled (remote (requests w @ [req]))"
  shows "safe_request remote req w
    = safe_request remote req
        (w\<lparr>requests := requests w @ [req],
           sleeps := sleeps w @ [wait_of (remote (requests w @ [req]))]\<rparr>)"
proof (cases "remote (requests w @ [req])")
  case (Raises e)
  with assms show ?thesis by (simp add: throttled_def)
next
  case (Returns r)
  with assms show ?thesis
    by (subst safe_request.simps)
       (auto simp: throttled_def wait_of_def split: option.splits)
qed

lemma safe_request_after:
  "(\<And>i. i < k \<Longrightarrow> throttled (remote (requests w @ replicate (Suc i) req)))
   \<Longrightarrow> \<not> throttled (remote (requests w @ replicate (Suc k) req))
   \<Longrightarrow> safe_request remote req w
     = Some (answer (remote (requests w @ replicate (Suc k) req)),
         w\<lparr>requests := requests w @ replicate (Suc k) req,
           sleeps := sleeps w
             @ map (\<lambda>i. wait_of (remote (requests w @ replicate (Suc i) req))) [0..<k]\<rparr>)"
proof (induction k arbitrary: w)
  case 0
  then show ?case using safe_request_now [of remote w req] by simp
next
  case (Suc k)
  let ?w1 = "w\<lparr>requests := requests w @ [req],
                 sleeps := sleeps w @ [wait_of (remote (requests w @ [req]))]\<rparr>"
  have first: "throttled (remote (requests w @ [req]))"
    using Suc.prems(1) [of 0] by simp
  have a: "\<And>i. i < k \<Longrightarrow> throttled (remote (requests ?w1 @ replicate (Suc i) req))"
  proof -
    fix i assume "i < k"
    then have "throttled (remote (requests w @ replicate (Suc (Suc i)) req))"
      using Suc.prems(1) [of "Suc i"] by simp
    then show "throttled (remote (requests ?w1 @ replicate (Suc i) req))" by simp
  qed
  have b: "\<not> throttled (remote (requests ?w1 @ replicate (Suc k) req))"
    using Suc.prems(2) by simp
  have "safe_request remote req w = safe_request remote req ?w1"
    using first by (rule safe_request_later)
  also have "\<dots> = Some (answer (remote (requests ?w1 @ replicate (Suc k) req)),
         ?w1\<lparr>requests := requests ?w1 @ replicate (Suc k) req,
           sleeps := sleeps ?w1
             @ map (\<lambda>i. wait_of (remote (requests ?w1 @ replicate (Suc i) req))) [0..<k]\<rparr>)"
    using a b by (rule Suc.IH)
  also have "\<dots> = Some (answer (remote (requests w @ replicate (Suc (Suc k)) req)),
         w\<lparr>requests := requests w @ replicate (Suc (Suc k)) req,
           sleeps := sleeps w
             @ map (\<lambda>i. wait_of (remote (requests w @ replicate (Suc i) req))) [0..<Suc k]\<rparr>)"
    by (simp add: map_upt_Suc del: upt_Suc)
  finally show ?case .
qed

lemma settles_steps:
  "settles remote req h \<Longrightarrow>
   \<exists>k. (\<forall>i<k. throttled (remote (h @ replicate (Suc i) req)))
      \<and> \<not> throttled (remote (h @ replicate (Suc k) req))"
proof (induction rule: settles.induct)
  case (now remote h req)
  then have "(\<forall>i<0. throttled (remote (h @ replicate (Suc i) req)))
      \<and> \<not> throttled (remote (h @ replicate (Suc 0) req))" by simp
  then show ?case by blast
next
  case (later remote h req)
  then obtain k where k: "\<forall>i<k. throttled (remote ((h @ [req]) @ replicate (Suc i) req))"
      "\<not> throttled (remote ((h @ [req]) @ replicate (Suc k) req))" by blast
  have "\<forall>i<Suc k. throttled (remote (h @ replicate (Suc i) req))"
  proof (intro allI impI)
    fix i assume "i < Suc k"
    show "throttled (remote (h @ replicate (Suc i) req))"
    proof (cases i)
      case 0
      with later(1) show ?thesis by simp
    next
      case (Suc j)
      with \<open>i < Suc k\<close> k(1) have "throttled (remote ((h @ [req]) @ replicate (Suc j) req))" by simp
      then show ?thesis using Suc by simp
    qed
  qed
  moreover have "\<not> throttled (remote (h @ replicate (Suc (Suc k)) req))"
    using k(2) by simp
  ultimately show ?case by blast
qed

lemma steps_settles:
  "(\<And>i. i < k \<Longrightarrow> throttled (remote (h @ replicate (Suc i) req)))
   \<Longrightarrow> \<not> throttled (remote (h @ replicate (Suc k) req))
   \<Longrightarrow> settles remote req h"
proof (induction k arbitrary: h)
  case 0
  then show ?case by (simp add: settles.now)
next
  case (Suc k)
  have first: "throttled (remote (h @ [req]))" using Suc.prems(1) [of 0] by simp
  have "settles remote req (h @ [req])"
  proof (rule Suc.IH)
    fix i assume "i < k"
    then show "throttled (remote ((h @ [req]) @ replicate (Suc i) req))"
      using Suc.prems(1) [of "Suc i"] by simp
  next
    show "\<not> throttled (remote ((h @ [req]) @ replicate (Suc k) req))"
      using Suc.prems(2) by simp
  qed
  with first show ?case by (rule settles.later)
qed

lemma safe_request_returns_settles:
  "safe_request remote req w = Some y \<Longrightarrow> settles remote req (requests w)"
proof (induction arbitrary: y rule: safe_request.raw_induct [rotated 1, consumes 1])
  case (1 safe_request' remote req w y)
  show ?case
  proof (cases "throttled (remote (requests w @ [req]))")
    case False
    then show ?thesis by (rule settles.now)
  next
    case True
    then obtain r n where r: "remote (requests w @ [req]) = Returns r" "status_code r = 429"
        "retry_after_seconds r = Some n" "0 \<le> n"
      by (auto simp: throttled_def split: outcome.splits option.splits)
    with 1(2) have "safe_request' remote req
        (w\<lparr>requests := requests w @ [req], sleeps := sleeps w @ [n]\<rparr>) = Some y"
      by (simp add: Let_def)
    then have "settles remote req (requests (w\<lparr>requests := requests w @ [req], sleeps := sleeps w @ [n]\<rparr>))"
      by (rule 1(1))
    then have "settles remote req (requests w @ [req])" by simp
    with True show ?thesis by (rule settles.later)
  qed
qed

lemma safe_request_total:
  assumes "settles remote req (requests w)"
  shows "\<exists>resp w'. safe_request remote req w = Some (resp, w')"
proof -
  from settles_steps [OF assms] obtain k
    where "\<forall>i<k. throttled (remote (requests w @ replicate (Suc i) req))"
      and "\<not> throttled (remote (requests w @ replicate (Suc k) req))" by blast
  then show ?thesis using safe_request_after [of k remote w req] by blast
qed

lemma safe_request_result:
  assumes "safe_request remote req w = Some (resp, w')"
  shows "\<exists>k. requests w' = requests w @ replicate k req @ [req]
           \<and> resp = answer (remote (requests w'))
           \<and> \<not> throttled (remote (requests w'))"
proof -
  from assms have "settles remote req (requests w)" by (rule safe_request_returns_settles)
  from settles_steps [OF this] obtain k
    where k: "\<forall>i<k. throttled (remote (requests w @ replicate (Suc i) req))"
      "\<not> throttled (remote (requests w @ replicate (Suc k) req))" by blast
  from safe_request_after [of k remote w req] k assms
  have r: "resp = answer (remote (requests w @ replicate (Suc k) req))"
    and w': "w' = w\<lparr>requests := requests w @ replicate (Suc k) req,
           sleeps := sleeps w
             @ map (\<lambda>i. wait_of (remote (requests w @ replicate (Suc i) req))) [0..<k]\<rparr>"
    by simp_all
  have e: "replicate (Suc k) req = replicate k req @ [req]"
    by (simp add: replicate_append_same)
  from w' have "requests w' = requests w @ replicate k req @ [req]"
    unfolding e by simp
  moreover from r this have "resp = answer (remote (requests w'))" unfolding e by simp
  moreover from k(2) \<open>requests w' = requests w @ replicate k req @ [req]\<close>
  have "\<not> throttled (remote (requests w'))" unfolding e by simp
  ultimately show ?thesis by blast
qed

section \<open>The client under the recursion limit\<close>

declare safe_request_limited.simps [simp del]

lemma safe_request_limited_stop:
  assumes "\<not> throttled (remote (requests w @ [req]))
           \<or> sleep_raises (wait_of (remote (requests w @ [req])))"
  shows "safe_request_limited remote req room w
    = (answer (remote (requests w @ [req])), w\<lparr>requests := requests w @ [req]\<rparr>)"
proof (cases "remote (requests w @ [req])")
  case (Raises e)
  then show ?thesis
    by (subst safe_request_limited.simps) (simp add: answer_def)
next
  case (Returns r)
  with assms show ?thesis
    by (subst safe_request_limited.simps)
       (auto simp: answer_def throttled_def wait_of_def sleep_raises_def Let_def
          split: option.splits)
qed

lemma safe_request_limited_again:
  assumes "remote (requests w @ [req]) = Returns r" and "status_code r = 429"
      and "retry_after_seconds r = Some secs" and "\<not> sleep_raises secs"
  shows "safe_request_limited remote req (Suc room) w
    = safe_request_limited remote req room
        (w\<lparr>requests := requests w @ [req], sleeps := sleeps w @ [secs]\<rparr>)"
  using assms by (subst safe_request_limited.simps) (simp add: Let_def)




lemma safe_request_limited_agrees:
  "(\<And>i. i < k \<Longrightarrow> throttled (remote (requests w @ replicate (Suc i) req))
        \<and> \<not> sleep_raises (wait_of (remote (requests w @ replicate (Suc i) req))))
   \<Longrightarrow> \<not> throttled (remote (requests w @ replicate (Suc k) req))
   \<Longrightarrow> k \<le> room
   \<Longrightarrow> safe_request remote req w = Some (safe_request_limited remote req room w)"
proof (induction k arbitrary: w room)
  case 0
  then have n: "\<not> throttled (remote (requests w @ [req]))" by simp
  then show ?case by (simp add: safe_request_now safe_request_limited_stop)
next
  case (Suc k)
  from Suc.prems(3) obtain room' where room: "room = Suc room'" and le: "k \<le> room'"
    by (cases room) simp_all
  have first: "throttled (remote (requests w @ [req]))"
    and ok: "\<not> sleep_raises (wait_of (remote (requests w @ [req])))"
    using Suc.prems(1) [of 0] by simp_all
  from first obtain r secs where r: "remote (requests w @ [req]) = Returns r"
      "status_code r = 429" "retry_after_seconds r = Some secs"
    by (auto simp: throttled_def split: outcome.splits option.splits)
  then have wt: "wait_of (remote (requests w @ [req])) = secs" by (simp add: wait_of_def)
  let ?w2 = "w\<lparr>requests := requests w @ [req], sleeps := sleeps w @ [secs]\<rparr>"
  have a: "\<And>i. i < k \<Longrightarrow> throttled (remote (requests ?w2 @ replicate (Suc i) req))
        \<and> \<not> sleep_raises (wait_of (remote (requests ?w2 @ replicate (Suc i) req)))"
  proof -
    fix i assume "i < k"
    then show "throttled (remote (requests ?w2 @ replicate (Suc i) req))
        \<and> \<not> sleep_raises (wait_of (remote (requests ?w2 @ replicate (Suc i) req)))"
      using Suc.prems(1) [of "Suc i"] by simp
  qed
  have b: "\<not> throttled (remote (requests ?w2 @ replicate (Suc k) req))"
    using Suc.prems(2) by simp
  have "safe_request remote req w = safe_request remote req ?w2"
    using safe_request_later [of remote w req] first wt by simp
  also have "\<dots> = Some (safe_request_limited remote req room' ?w2)"
    using a b le by (rule Suc.IH)
  also have "safe_request_limited remote req room' ?w2 = safe_request_limited remote req room w"
    unfolding room using r ok wt by (simp add: safe_request_limited_again)
  finally show ?case .
qed





section \<open>The update payload\<close>

lemma filter_update_other:
  "\<not> P k \<Longrightarrow> filter (\<lambda>p. P (fst p)) (AList.update k v al) = filter (\<lambda>p. P (fst p)) al"
  by (induction al) auto

lemma update_image_alt_requests:
  assumes "update_image_alt remote sku_id img t w = Some (updated, w')"
  shows "\<exists>k. requests w' = requests w @ replicate (Suc k) (update_request sku_id img t)"
proof -
  from assms obtain resp where "safe_request remote (update_request sku_id img t) w = Some (resp, w')"
    by (auto simp: update_image_alt_def split: option.splits if_splits)
  from safe_request_result [OF this] obtain k
    where "requests w' = requests w @ replicate k (update_request sku_id img t)
             @ [update_request sku_id img t]" by blast
  then have "requests w' = requests w @ replicate (Suc k) (update_request sku_id img t)"
    by (simp add: replicate_append_same)
  then show ?thesis by blast
qed

text \<open>
  Claim C7. The payload of the update call is the image record with \<open>Label\<close> and \<open>Text\<close>
  set to the new text: every other key has the value it had, the other entries stand as
  they were and in the same order, and every call \<open>update_image_alt\<close> issues is a PUT
  carrying this payload.
\<close>

theorem update_payload_frame:
  "map_of (update_payload img t) = (map_of img)(''Label'' \<mapsto> JStr t, ''Text'' \<mapsto> JStr t)
   \<and> filter (\<lambda>p. fst p \<noteq> ''Label'' \<and> fst p \<noteq> ''Text'') (update_payload img t)
       = filter (\<lambda>p. fst p \<noteq> ''Label'' \<and> fst p \<noteq> ''Text'') img
   \<and> (key \<noteq> ''Label'' \<and> key \<noteq> ''Text'' \<longrightarrow> dict_get (update_payload img t) key = dict_get img key)
   \<and> req_method (update_request sku_id img t) = PUT
   \<and> req_json (update_request sku_id img t) = Some (update_payload img t)
   \<and> (update_image_alt remote sku_id img t w = Some (updated, w') \<longrightarrow>
        (\<exists>k. requests w' = requests w @ replicate (Suc k) (update_request sku_id img t)))"
proof -
  have m: "map_of (update_payload img t)
      = (map_of img)(''Label'' \<mapsto> JStr t, ''Text'' \<mapsto> JStr t)"
    by (simp add: update_payload_def dict_set_def update_conv')
  have f: "filter (\<lambda>p. fst p \<noteq> ''Label'' \<and> fst p \<noteq> ''Text'') (update_payload img t)
       = filter (\<lambda>p. fst p \<noteq> ''Label'' \<and> fst p \<noteq> ''Text'') img"
  proof -
    let ?other = "\<lambda>k. k \<noteq> ''Label'' \<and> k \<noteq> ''Text''"
    have "filter (\<lambda>p. ?other (fst p))
            (AList.update ''Text'' (JStr t) (AList.update ''Label'' (JStr t) img))
        = filter (\<lambda>p. ?other (fst p)) (AList.update ''Label'' (JStr t) img)"
      by (rule filter_update_other) simp
    also have "\<dots> = filter (\<lambda>p. ?other (fst p)) img"
      by (rule filter_update_other) simp
    finally show ?thesis by (simp add: update_payload_def dict_set_def)
  qed
  have g: "key \<noteq> ''Label'' \<and> key \<noteq> ''Text'' \<longrightarrow> dict_get (update_payload img t) key = dict_get img key"
    by (simp add: dict_get_def dict_get_default_def m)
  show ?thesis
    using m f g update_image_alt_requests [of remote sku_id img t w updated w']
    by (simp add: update_request_def)
qed

theorem update_payload_frame_witness:
  "''Name'' \<noteq> ''Label'' \<and> ''Name'' \<noteq> ''Text''
   \<and> update_image_alt always_ok 100
        [(''Id'', JInt 7), (''Label'', JNull), (''Name'', JStr ''front''), (''Text'', JStr ''old'')]
        ''dipirona'' fresh
      = Some (True, \<lparr>requests =
          [\<lparr>req_method = PUT, req_url = SkuFileUrl 100 (JInt 7),
            req_json = Some [(''Id'', JInt 7), (''Label'', JStr ''dipirona''),
              (''Name'', JStr ''front''), (''Text'', JStr ''dipirona'')]\<rparr>],
          sleeps = []\<rparr>)
   \<and> dict_get (update_payload
        [(''Id'', JInt 7), (''Label'', JNull), (''Name'', JStr ''front''), (''Text'', JStr ''old'')]
        ''dipirona'') ''Name'' = JStr ''front''"
proof -
  let ?img = "[(''Id'', JInt 7), (''Label'', JNull), (''Name'', JStr ''front''), (''Text'', JStr ''old'')]"
  let ?w = "\<lparr>requests = [update_request 100 ?img ''dipirona''], sleeps = []\<rparr>"
  have n: "\<not> throttled (always_ok h)" for h
    by (simp add: always_ok_def throttled_def)
  have sr: "safe_request always_ok (update_request 100 ?img ''dipirona'') fresh
      = Some (answer (always_ok (requests fresh @ [update_request 100 ?img ''dipirona''])),
          fresh\<lparr>requests := requests fresh @ [update_request 100 ?img ''dipirona'']\<rparr>)"
    by (rule safe_request_now) (rule n)
  have e: "update_image_alt always_ok 100 ?img ''dipirona'' fresh = Some (True, ?w)"
    unfolding update_image_alt_def sr
    by (simp add: answer_def always_ok_def response_ok_def fresh_def)
  have p: "update_request 100 ?img ''dipirona''
      = \<lparr>req_method = PUT, req_url = SkuFileUrl 100 (JInt 7),
            req_json = Some [(''Id'', JInt 7), (''Label'', JStr ''dipirona''),
              (''Name'', JStr ''front''), (''Text'', JStr ''dipirona'')]\<rparr>"
    by (simp add: update_request_def update_payload_def dict_set_def dict_get_def
        dict_get_default_def)
  from update_payload_frame [of ?img "''dipirona''" "''Name''" 100 always_ok fresh True ?w] e
  have "dict_get (update_payload ?img ''dipirona'') ''Name'' = dict_get ?img ''Name''"
    by simp
  then have "dict_get (update_payload ?img ''dipirona'') ''Name'' = JStr ''front''"
    by (simp add: dict_get_def dict_get_default_def)
  with e p show ?thesis by simp
qed

section \<open>Items already in the checkpoint\<close>

text \<open>
  Claim C4. For an ID that is in the checkpoint, \<open>process_single_sku\<close> returns success at
  once: no call is made, nothing sleeps, and the checkpoint is as it was.
\<close>

theorem checkpointed_item_is_skipped:
  "sku_id \<in> set (processed_skus checkpoint) \<Longrightarrow>
   process_single_sku remote sku_id w checkpoint = Some (Inr True, w, checkpoint)"
  by (simp add: process_single_sku_def is_processed_def)

theorem checkpointed_item_is_skipped_witness:
  "100 \<in> set (processed_skus \<lparr>processed_skus = [100]\<rparr>)
   \<and> process_single_sku images_not_found 100 fresh \<lparr>processed_skus = [100]\<rparr>
      = Some (Inr True, fresh, \<lparr>processed_skus = [100]\<rparr>)"
  using checkpointed_item_is_skipped [of 100 "\<lparr>processed_skus = [100]\<rparr>" images_not_found fresh]
  by simp

section \<open>The image list is not found\<close>

lemma process_sku_images_client_error:
  assumes "\<not> throttled (remote (requests w @ [images_request sku_id]))"
      and "remote (requests w @ [images_request sku_id]) = Returns r"
      and "400 \<le> status_code r" "status_code r < 600"
  shows "process_sku_images remote sku_id product_name w checkpoint
    = Some (Inr False, w\<lparr>requests := requests w @ [images_request sku_id]\<rparr>, checkpoint)"
proof -
  have sr: "safe_request remote (images_request sku_id) w
      = Some (answer (remote (requests w @ [images_request sku_id])),
          w\<lparr>requests := requests w @ [images_request sku_id]\<rparr>)"
    using assms(1) by (rule safe_request_now)
  show ?thesis
  proof (cases "status_code r = 429")
    case True
    with assms(2) show ?thesis
      unfolding process_sku_images_def sr by (simp add: answer_def)
  next
    case False
    with assms(2-4) show ?thesis
      unfolding process_sku_images_def sr by (simp add: answer_def response_ok_def)
  qed
qed

text \<open>
  Claim C5 is not what the code does. A response with status 404 is false as a truth
  value, so \<open>if not response\<close> returns \<open>False\<close> before the status is compared with 404:
  the item stays out of the checkpoint, like an item whose image list could not be read.
\<close>

theorem not_found_is_not_checkpointed:
  "process_single_sku images_not_found 300 fresh \<lparr>processed_skus = []\<rparr>
     = Some (Inr False,
         \<lparr>requests = [details_request 300, images_request 300], sleeps = []\<rparr>,
         \<lparr>processed_skus = []\<rparr>)"
proof -
  have n: "\<not> throttled (images_not_found h)" for h
    by (simp add: images_not_found_def throttled_def split: url.splits)
  have sr: "safe_request images_not_found (details_request 300) fresh
      = Some (answer (images_not_found (requests fresh @ [details_request 300])),
          fresh\<lparr>requests := requests fresh @ [details_request 300]\<rparr>)"
    by (rule safe_request_now) (rule n)
  have d: "get_sku_details images_not_found 300 fresh
      = Some (Inr (JStr ''Dipirona 500mg'', JNull), \<lparr>requests = [details_request 300], sleeps = []\<rparr>)"
    unfolding get_sku_details_def sr
    by (simp add: answer_def images_not_found_def details_request_def response_ok_def
        fresh_def py_or_def dict_get_def dict_get_default_def)
  let ?w1 = "\<lparr>requests = [details_request 300], sleeps = []\<rparr>"
  let ?r = "\<lparr>status_code = 404, retry_after_header = None, body = NotJson\<rparr>"
  have o: "images_not_found [details_request 300, images_request 300] = Returns ?r"
    by (simp add: images_not_found_def images_request_def)
  have "process_sku_images images_not_found 300 (JStr ''Dipirona 500mg'') ?w1
        \<lparr>processed_skus = []\<rparr>
      = Some (Inr False, ?w1\<lparr>requests := requests ?w1 @ [images_request 300]\<rparr>,
          \<lparr>processed_skus = []\<rparr>)"
    by (rule process_sku_images_client_error [where r = ?r]) (simp_all add: o throttled_def)
  then have i: "process_sku_images images_not_found 300 (JStr ''Dipirona 500mg'') ?w1
        \<lparr>processed_skus = []\<rparr>
      = Some (Inr False, \<lparr>requests = [details_request 300, images_request 300], sleeps = []\<rparr>,
          \<lparr>processed_skus = []\<rparr>)"
    by simp
  show ?thesis
    by (simp add: process_single_sku_def is_processed_def d i)
qed

section \<open>The update phase\<close>

lemma update_image_alt_total:
  assumes "responsive remote"
  shows "\<exists>updated w'. update_image_alt remote sku_id img t w = Some (updated, w')"
proof -
  from assms have "settles remote (update_request sku_id img t) (requests w)"
    by (simp add: responsive_def)
  from safe_request_total [OF this] obtain resp w'
    where "safe_request remote (update_request sku_id img t) w = Some (resp, w')" by blast
  then show ?thesis
    by (cases resp) (auto simp: update_image_alt_def)
qed

lemma update_image_alt_succeeds_iff:
  assumes "update_image_alt remote sku_id img t w = Some (updated, w')"
  shows "updated \<longleftrightarrow> (\<exists>r. remote (requests w') = Returns r \<and> status_code r = 200)"
proof -
  from assms obtain resp where sr: "safe_request remote (update_request sku_id img t) w = Some (resp, w')"
    by (auto simp: update_image_alt_def split: option.splits if_splits)
  from safe_request_result [OF sr] have a: "resp = answer (remote (requests w'))" by blast
  show ?thesis
  proof (cases "remote (requests w')")
    case (Raises e)
    with a assms sr show ?thesis by (simp add: update_image_alt_def answer_def)
  next
    case (Returns r)
    with a assms sr show ?thesis
      by (auto simp: update_image_alt_def answer_def response_ok_def split: if_splits)
  qed
qed

lemma run_updates_total:
  assumes "responsive remote"
  shows "\<exists>results w'. run_updates remote sku_id new_alt images w = Some (results, w')"
proof (induction images arbitrary: w)
  case Nil
  then show ?case by simp
next
  case (Cons img images)
  from update_image_alt_total [OF assms] obtain updated w1
    where u: "update_image_alt remote sku_id img new_alt w = Some (updated, w1)" by blast
  from Cons [of w1] obtain results w2
    where "run_updates remote sku_id new_alt images w1 = Some (results, w2)" by blast
  with u show ?case by simp
qed

lemma update_loop_run_updates:
  assumes "alt_text_of product_name 1 total_images = Inr new_alt"
  shows "update_loop remote sku_id product_name total_images index images success w
    = (case run_updates remote sku_id new_alt (filter (needs_update new_alt) images) w of
         None \<Rightarrow> None
       | Some (results, w') \<Rightarrow> Some (Inr (success \<and> (\<forall>updated \<in> set results. updated)), w'))"
proof (induction images arbitrary: index success w)
  case Nil
  then show ?case by simp
next
  case (Cons img images)
  have t: "alt_text_of product_name index total_images = Inr new_alt"
    using assms alt_text_of_independent [of product_name index total_images 1 total_images]
    by simp
  show ?case
  proof (cases "needs_update new_alt img")
    case False
    then show ?thesis
      by (simp add: t Cons.IH needs_update_def)
  next
    case True
    show ?thesis
    proof (cases "update_image_alt remote sku_id img new_alt w")
      case None
      with True show ?thesis by (simp add: t needs_update_def)
    next
      case (Some a)
      obtain updated w1 where a: "a = (updated, w1)" by (cases a)
      show ?thesis
      proof (cases "run_updates remote sku_id new_alt (filter (needs_update new_alt) images) w1")
        case None
        with True Some a show ?thesis
          by (simp add: t Cons.IH) (simp add: needs_update_def)
      next
        case (Some b)
        obtain results w2 where b: "b = (results, w2)" by (cases b)
        from True \<open>update_image_alt remote sku_id img new_alt w = Some a\<close> a Some b
        show ?thesis
          by (simp add: t Cons.IH) (auto simp: needs_update_def)
      qed
    qed
  qed
qed

lemma update_image_alt_now:
  assumes "\<not> throttled (remote (requests w @ [update_request sku_id img t]))"
  shows "update_image_alt remote sku_id img t w
    = Some ((case remote (requests w @ [update_request sku_id img t]) of
               Raises e \<Rightarrow> False | Returns r \<Rightarrow> status_code r = 200),
            w\<lparr>requests := requests w @ [update_request sku_id img t]\<rparr>)"
proof -
  have sr: "safe_request remote (update_request sku_id img t) w
      = Some (answer (remote (requests w @ [update_request sku_id img t])),
          w\<lparr>requests := requests w @ [update_request sku_id img t]\<rparr>)"
    using assms by (rule safe_request_now)
  show ?thesis
    unfolding update_image_alt_def sr
    by (cases "remote (requests w @ [update_request sku_id img t])")
       (auto simp: answer_def response_ok_def)
qed

lemma process_sku_images_update_phase:
  assumes "safe_request remote (images_request sku_id) w = Some (Some r, w1)"
      and "status_code r = 200" and "body r = JsonList images" and "images \<noteq> []"
      and "all_have_alt images = Inr False"
      and "alt_text_of product_name 1 (int (length images)) = Inr new_alt"
      and "run_updates remote sku_id new_alt (filter (needs_update new_alt) images) w1
             = Some (results, w2)"
  shows "process_sku_images remote sku_id product_name w checkpoint
           = Some (Inr (\<forall>updated \<in> set results. updated), w2,
               if (\<forall>updated \<in> set results. updated)
               then mark_processed checkpoint sku_id else checkpoint)"
proof -
  have ok: "response_ok r" using assms(2) by (simp add: response_ok_def)
  have loop: "update_loop remote sku_id product_name (int (length images)) 1 images True w1
      = Some (Inr (\<forall>updated \<in> set results. updated), w2)"
    using update_loop_run_updates [OF assms(6), of remote sku_id 1 images True w1] assms(7)
    by simp
  show ?thesis
    unfolding process_sku_images_def assms(1)
    using ok assms(2-5) by (simp add: loop)
qed

text \<open>
  Claim C6. When the image list arrives, is not empty and not every image has a label, the
  item goes through the per-image updates: \<open>update_image_alt\<close> runs on the images whose
  label differs from the target, in order. The item is added to the checkpoint exactly
  when every one of these updates succeeded, otherwise the checkpoint is left as it was.
  An update succeeds exactly when its final answer has status 200, so not on a 401; and
  on a service that does not throttle forever the updates all return.
\<close>

theorem item_checkpointed_iff_updates_succeeded:
  assumes "safe_request remote (images_request sku_id) w = Some (Some r, w1)"
      and "status_code r = 200" and "body r = JsonList images" and "images \<noteq> []"
      and "all_have_alt images = Inr False"
      and "alt_text_of product_name 1 (int (length images)) = Inr new_alt"
      and "run_updates remote sku_id new_alt (filter (needs_update new_alt) images) w1
             = Some (results, w2)"
  shows "process_sku_images remote sku_id product_name w checkpoint
           = Some (Inr (\<forall>updated \<in> set results. updated), w2,
               if (\<forall>updated \<in> set results. updated)
               then mark_processed checkpoint sku_id else checkpoint)
     \<and> (sku_id \<notin> set (processed_skus checkpoint) \<longrightarrow>
          (sku_id \<in> set (processed_skus
              (if (\<forall>updated \<in> set results. updated)
               then mark_processed checkpoint sku_id else checkpoint))
           \<longleftrightarrow> (\<forall>updated \<in> set results. updated)))
     \<and> (update_image_alt remote sku_id img new_alt w3 = Some (updated, w4) \<longrightarrow>
          (updated \<longleftrightarrow> (\<exists>r'. remote (requests w4) = Returns r' \<and> status_code r' = 200)))
     \<and> (responsive remote \<longrightarrow>
          (\<exists>results' w'. run_updates remote sku_id new_alt images' w3 = Some (results', w')))"
proof (intro conjI impI)
  show "process_sku_images remote sku_id product_name w checkpoint
           = Some (Inr (\<forall>updated \<in> set results. updated), w2,
               if (\<forall>updated \<in> set results. updated)
               then mark_processed checkpoint sku_id else checkpoint)"
    using assms by (rule process_sku_images_update_phase)
next
  assume "sku_id \<notin> set (processed_skus checkpoint)"
  then show "sku_id \<in> set (processed_skus
              (if (\<forall>updated \<in> set results. updated)
               then mark_processed checkpoint sku_id else checkpoint))
           \<longleftrightarrow> (\<forall>updated \<in> set results. updated)"
    by (simp add: mark_processed_set)
next
  assume "update_image_alt remote sku_id img new_alt w3 = Some (updated, w4)"
  then show "updated \<longleftrightarrow> (\<exists>r'. remote (requests w4) = Returns r' \<and> status_code r' = 200)"
    by (rule update_image_alt_succeeds_iff)
next
  assume "responsive remote"
  then show "\<exists>results' w'. run_updates remote sku_id new_alt images' w3 = Some (results', w')"
    by (rule run_updates_total)
qed

lemma normalize_dipirona: "normalize_product_name ''Dipirona  500MG'' = ''dipirona 500mg''"
  by code_simp

lemma never_throttled_responsive: "(\<And>h. \<not> throttled (remote h)) \<Longrightarrow> responsive remote"
  by (simp add: responsive_def settles.now)

theorem item_checkpointed_iff_updates_succeeded_witness:
  "safe_request one_update_refused (images_request 100) fresh
     = Some (Some \<lparr>status_code = 200, retry_after_header = None,
                 body = JsonList
                   [[(''Id'', JInt 1), (''Label'', JNull)],
                    [(''Id'', JInt 2), (''Label'', JStr ''old'')],
                    [(''Id'', JInt 3), (''Label'', JStr ''dipirona 500mg'')]]\<rparr>,
             \<lparr>requests = [images_request 100], sleeps = []\<rparr>)
   \<and> all_have_alt
        [[(''Id'', JInt 1), (''Label'', JNull)],
         [(''Id'', JInt 2), (''Label'', JStr ''old'')],
         [(''Id'', JInt 3), (''Label'', JStr ''dipirona 500mg'')]] = Inr False
   \<and> alt_text_of (JStr ''Dipirona  500MG'') 1 3 = Inr ''dipirona 500mg''
   \<and> filter (needs_update ''dipirona 500mg'')
        [[(''Id'', JInt 1), (''Label'', JNull)],
         [(''Id'', JInt 2), (''Label'', JStr ''old'')],
         [(''Id'', JInt 3), (''Label'', JStr ''dipirona 500mg'')]]
      = [[(''Id'', JInt 1), (''Label'', JNull)], [(''Id'', JInt 2), (''Label'', JStr ''old'')]]
   \<and> run_updates one_update_refused 100 ''dipirona 500mg''
        [[(''Id'', JInt 1), (''Label'', JNull)], [(''Id'', JInt 2), (''Label'', JStr ''old'')]]
        \<lparr>requests = [images_request 100], sleeps = []\<rparr>
      = Some ([False, True],
          \<lparr>requests = [images_request 100,
             update_request 100 [(''Id'', JInt 1), (''Label'', JNull)] ''dipirona 500mg'',
             update_request 100 [(''Id'', JInt 2), (''Label'', JStr ''old'')] ''dipirona 500mg''],
           sleeps = []\<rparr>)
   \<and> process_sku_images one_update_refused 100 (JStr ''Dipirona  500MG'') fresh
        \<lparr>processed_skus = []\<rparr>
      = Some (Inr False,
          \<lparr>requests = [images_request 100,
             update_request 100 [(''Id'', JInt 1), (''Label'', JNull)] ''dipirona 500mg'',
             update_request 100 [(''Id'', JInt 2), (''Label'', JStr ''old'')] ''dipirona 500mg''],
           sleeps = []\<rparr>,
          \<lparr>processed_skus = []\<rparr>)
   \<and> responsive one_update_refused"
proof -
  let ?R = one_update_refused
  let ?t = "''dipirona 500mg''"
  let ?img1 = "[(''Id'', JInt 1), (''Label'', JNull)]"
  let ?img2 = "[(''Id'', JInt 2), (''Label'', JStr ''old'')]"
  let ?img3 = "[(''Id'', JInt 3), (''Label'', JStr ''dipirona 500mg'')]"
  let ?images = "[?img1, ?img2, ?img3]"
  let ?r = "\<lparr>status_code = 200, retry_after_header = None, body = JsonList ?images\<rparr>"
  let ?w1 = "\<lparr>requests = [images_request 100], sleeps = []\<rparr>"
  let ?u1 = "update_request 100 ?img1 ?t"
  let ?u2 = "update_request 100 ?img2 ?t"
  let ?w1' = "\<lparr>requests = [images_request 100, ?u1], sleeps = []\<rparr>"
  let ?w2 = "\<lparr>requests = [images_request 100, ?u1, ?u2], sleeps = []\<rparr>"
  have n: "\<not> throttled (?R h)" for h
    by (simp add: one_update_refused_def throttled_def split: url.splits)
  have resp: "responsive ?R" using n by (rule never_throttled_responsive)
  have o0: "?R [images_request 100] = Returns ?r"
    by (simp add: one_update_refused_def images_request_def)
  have o1: "?R [images_request 100, ?u1]
      = Returns \<lparr>status_code = 401, retry_after_header = None, body = NotJson\<rparr>"
    by (simp add: one_update_refused_def update_request_def dict_get_def dict_get_default_def)
  have o2: "?R [images_request 100, ?u1, ?u2]
      = Returns \<lparr>status_code = 200, retry_after_header = None, body = JsonDict []\<rparr>"
    by (simp add: one_update_refused_def update_request_def dict_get_def dict_get_default_def)
  have g: "safe_request ?R (images_request 100) fresh = Some (Some ?r, ?w1)"
    using safe_request_now [of ?R fresh "images_request 100", OF n]
    by (simp add: fresh_def o0 answer_def)
  have a: "all_have_alt ?images = Inr False"
    by (simp add: label_present_def dict_get_def dict_get_default_def)
  have t: "alt_text_of (JStr ''Dipirona  500MG'') 1 3 = Inr ?t"
    by (simp add: alt_text_of_def generate_natural_alt_text_def normalize_dipirona)
  have f: "filter (needs_update ?t) ?images = [?img1, ?img2]"
    by (simp add: needs_update_def dict_get_default_def)
  have u1: "update_image_alt ?R 100 ?img1 ?t ?w1 = Some (False, ?w1')"
    using update_image_alt_now [of ?R ?w1 100 ?img1 ?t, OF n] by (simp add: o1)
  have u2: "update_image_alt ?R 100 ?img2 ?t ?w1' = Some (True, ?w2)"
    using update_image_alt_now [of ?R ?w1' 100 ?img2 ?t, OF n] by (simp add: o2)
  have ru: "run_updates ?R 100 ?t [?img1, ?img2] ?w1 = Some ([False, True], ?w2)"
    by (simp add: u1 u2)
  have ru': "run_updates ?R 100 ?t (filter (needs_update ?t) ?images) ?w1 = Some ([False, True], ?w2)"
    unfolding f by (rule ru)
  have t': "alt_text_of (JStr ''Dipirona  500MG'') 1 (int (length ?images)) = Inr ?t"
    using t by simp
  from item_checkpointed_iff_updates_succeeded
    [where remote = ?R and sku_id = 100 and w = fresh and r = ?r and ?w1.0 = ?w1
       and images = ?images and product_name = "JStr ''Dipirona  500MG''" and new_alt = ?t
       and results = "[False, True]" and ?w2.0 = ?w2
       and checkpoint = "\<lparr>processed_skus = []\<rparr>" and img = ?img1 and ?w3.0 = ?w1
       and updated = False and ?w4.0 = ?w1' and images' = "[]",
     OF g _ _ _ a t' ru']
  have "process_sku_images ?R 100 (JStr ''Dipirona  500MG'') fresh \<lparr>processed_skus = []\<rparr>
      = Some (Inr False, ?w2, \<lparr>processed_skus = []\<rparr>)"
    by simp
  with g a t f ru resp show ?thesis by simp
qed

section \<open>Running again\<close>

lemma strip_Nil: "strip [] = []"
  by (simp add: strip_def)

lemma label_present_labelled: "labelled_image img \<Longrightarrow> label_present img = Inr True"
proof -
  assume l: "labelled_image img"
  then obtain s where s: "dict_get img ''Label'' = JStr s" and n: "strip s \<noteq> []"
    by (auto simp: labelled_image_def split: json.splits)
  from n have "s \<noteq> []" using strip_Nil by auto
  with s n show ?thesis by (simp add: label_present_def)
qed

lemma all_have_alt_labelled:
  "(\<And>img. img \<in> set images \<Longrightarrow> labelled_image img) \<Longrightarrow> all_have_alt images = Inr True"
  by (induction images) (simp_all add: label_present_labelled)

lemma safe_request_get_no_put:
  assumes "safe_request remote req w = Some (resp, w')" and "req_method req = GET"
  shows "put_requests w' = put_requests w"
proof -
  from safe_request_result [OF assms(1)] obtain k
    where "requests w' = requests w @ replicate k req @ [req]" by blast
  with assms(2) show ?thesis by (simp add: put_requests_def)
qed

lemma get_sku_details_no_put:
  assumes "responsive remote"
  shows "\<exists>res w'. get_sku_details remote sku_id w = Some (res, w')
           \<and> put_requests w' = put_requests w"
proof -
  from assms have "settles remote (details_request sku_id) (requests w)"
    by (simp add: responsive_def)
  from safe_request_total [OF this] obtain resp w'
    where sr: "safe_request remote (details_request sku_id) w = Some (resp, w')" by blast
  have p: "put_requests w' = put_requests w"
    using sr by (rule safe_request_get_no_put) (simp add: details_request_def)
  show ?thesis
  proof (cases resp)
    case None
    with sr p show ?thesis by (simp add: get_sku_details_def)
  next
    case (Some r)
    with sr p show ?thesis
      by (cases "body r") (simp_all add: get_sku_details_def)
  qed
qed

lemma process_sku_images_no_put:
  assumes "all_labelled remote" and "responsive remote"
  shows "\<exists>res w' checkpoint'.
           process_sku_images remote sku_id product_name w checkpoint = Some (res, w', checkpoint')
           \<and> put_requests w' = put_requests w"
proof -
  from assms(2) have "settles remote (images_request sku_id) (requests w)"
    by (simp add: responsive_def)
  from safe_request_total [OF this] obtain resp w1
    where sr: "safe_request remote (images_request sku_id) w = Some (resp, w1)" by blast
  have p: "put_requests w1 = put_requests w"
    using sr by (rule safe_request_get_no_put) (simp add: images_request_def)
  from safe_request_result [OF sr] obtain k
    where h: "requests w1 = (requests w @ replicate k (images_request sku_id)) @ [images_request sku_id]"
      and a: "resp = answer (remote (requests w1))" by auto
  show ?thesis
  proof (cases resp)
    case None
    with sr p show ?thesis by (simp add: process_sku_images_def)
  next
    case (Some r)
    with a have o: "remote (requests w1) = Returns r"
      by (auto simp: answer_def split: outcome.splits if_splits)
    show ?thesis
    proof (cases "response_ok r \<and> status_code r = 200")
      case False
      with Some sr p show ?thesis by (auto simp: process_sku_images_def)
    next
      case True
      show ?thesis
      proof (cases "body r")
        case NotJson
        with True Some sr p show ?thesis by (simp add: process_sku_images_def)
      next
        case (JsonDict d)
        with True Some sr p show ?thesis by (simp add: process_sku_images_def)
      next
        case (JsonList images)
        have "\<And>img. img \<in> set images \<Longrightarrow> labelled_image img"
          using assms(1) o True JsonList unfolding all_labelled_def h by blast
        then have "all_have_alt images = Inr True" by (rule all_have_alt_labelled)
        with JsonList True Some sr p show ?thesis by (simp add: process_sku_images_def)
      qed
    qed
  qed
qed

lemma process_single_sku_no_put:
  assumes "all_labelled remote" and "responsive remote"
  shows "\<exists>res w' checkpoint'.
           process_single_sku remote sku_id w checkpoint = Some (res, w', checkpoint')
           \<and> put_requests w' = put_requests w"
proof (cases "is_processed checkpoint sku_id")
  case True
  then show ?thesis by (simp add: process_single_sku_def)
next
  case False
  from get_sku_details_no_put [OF assms(2), of sku_id w] obtain res w1
    where d: "get_sku_details remote sku_id w = Some (res, w1)"
      and p: "put_requests w1 = put_requests w" by blast
  show ?thesis
  proof (cases res)
    case (Inl e)
    with False d p show ?thesis by (simp add: process_single_sku_def)
  next
    case (Inr names)
    obtain product_name ref_id where n: "names = (product_name, ref_id)" by (cases names)
    show ?thesis
    proof (cases "truthy product_name")
      case False
      with \<open>\<not> is_processed checkpoint sku_id\<close> Inr n d p show ?thesis
        by (simp add: process_single_sku_def)
    next
      case True
      from process_sku_images_no_put [OF assms, of sku_id product_name w1 checkpoint]
      obtain res' w2 checkpoint'
        where "process_sku_images remote sku_id product_name w1 checkpoint
                 = Some (res', w2, checkpoint')"
          and "put_requests w2 = put_requests w1" by blast
      with True \<open>\<not> is_processed checkpoint sku_id\<close> Inr n d p show ?thesis
        by (simp add: process_single_sku_def)
    qed
  qed
qed

lemma process_all_no_put:
  assumes "all_labelled remote" and "responsive remote"
  shows "\<exists>w' checkpoint'.
           process_all remote sku_ids w checkpoint = Some (w', checkpoint')
           \<and> put_requests w' = put_requests w"
proof (induction sku_ids arbitrary: w checkpoint)
  case Nil
  then show ?case by simp
next
  case (Cons sku_id sku_ids)
  from process_single_sku_no_put [OF assms, of sku_id w checkpoint]
  obtain res w1 checkpoint1
    where s: "process_single_sku remote sku_id w checkpoint = Some (res, w1, checkpoint1)"
      and p: "put_requests w1 = put_requests w" by blast
  from Cons [of w1 checkpoint1] obtain w2 checkpoint2
    where "process_all remote sku_ids w1 checkpoint1 = Some (w2, checkpoint2)"
      and "put_requests w2 = put_requests w1" by blast
  with s p show ?case by simp
qed

lemma strip_placeholder: "strip placeholder \<noteq> []"
  by code_simp

lemma strip_alt_text: "strip (generate_natural_alt_text name i n) \<noteq> []"
proof (cases "normalize_product_name name = []")
  case True
  then show ?thesis by (simp add: generate_natural_alt_text_def strip_placeholder)
next
  case False
  have "\<And>w. w \<in> set (map lower (split name)) \<Longrightarrow> word_ok w"
    using split_words [of _ name] by (auto intro: word_ok_lower)
  then have "strip (join '' '' (map lower (split name))) = join '' '' (map lower (split name))"
    by (rule strip_join)
  then have "strip (normalize_product_name name) = normalize_product_name name"
    by (simp add: normalize_product_name_eq)
  with False show ?thesis by (simp add: generate_natural_alt_text_def)
qed

lemma update_payload_label: "dict_get (update_payload img t) ''Label'' = JStr t"
  by (simp add: dict_get_def dict_get_default_def update_payload_def dict_set_def update_conv')

text \<open>
  Claim C2. After a first run, let the service list every image with a label, as it does
  when each image carries the text the first run wrote (which is never blank) or a label
  the first run found in place. Then a second run over the same IDs, from the checkpoint
  the first run left, returns and issues no update call: each item is skipped through the
  checkpoint or leaves \<open>process_sku_images\<close> before the update loop. The same holds for
  each item by itself, whatever the checkpoint and the calls made before it, so the order
  in which the workers take the items does not matter.
\<close>

theorem rerun_issues_no_update:
  assumes "process_all remote1 sku_ids w0 checkpoint0 = Some (w1, checkpoint1)"
      and "all_labelled remote2" and "responsive remote2"
  shows "(\<exists>w2 checkpoint2.
            process_all remote2 sku_ids w checkpoint1 = Some (w2, checkpoint2)
            \<and> put_requests w2 = put_requests w)
     \<and> (\<exists>result w' checkpoint'.
            process_single_sku remote2 sku_id w checkpoint = Some (result, w', checkpoint')
            \<and> put_requests w' = put_requests w)
     \<and> labelled_image (update_payload img (generate_natural_alt_text name i n))"
  using process_all_no_put [OF assms(2,3), of sku_ids w checkpoint1]
    process_single_sku_no_put [OF assms(2,3), of sku_id w checkpoint]
  by (simp add: labelled_image_def update_payload_label strip_alt_text)

lemma get_sku_details_now:
  assumes "\<not> throttled (remote (requests w @ [details_request sku_id]))"
      and "remote (requests w @ [details_request sku_id]) = Returns r"
      and "status_code r = 200" and "body r = JsonDict data"
  shows "get_sku_details remote sku_id w
    = Some (Inr (py_or (py_or (dict_get data ''ProductName'') (dict_get data ''NameComplete''))
                   (dict_get data ''Name''),
                 dict_get data ''RefId''),
            w\<lparr>requests := requests w @ [details_request sku_id]\<rparr>)"
proof -
  have sr: "safe_request remote (details_request sku_id) w
      = Some (answer (remote (requests w @ [details_request sku_id])),
          w\<lparr>requests := requests w @ [details_request sku_id]\<rparr>)"
    using assms(1) by (rule safe_request_now)
  show ?thesis
    unfolding get_sku_details_def sr using assms(2-4)
    by (simp add: answer_def response_ok_def)
qed

lemma strip_dipirona: "strip ''dipirona 500mg'' \<noteq> []"
  by code_simp

theorem rerun_issues_no_update_witness:
  "process_all unlabelled_catalog [100, 200] fresh \<lparr>processed_skus = []\<rparr>
     = Some (\<lparr>requests = [details_request 100, images_request 100,
                 update_request 100 [(''Id'', JInt 1), (''Label'', JStr [])] ''dipirona 500mg'',
                 details_request 200, images_request 200],
               sleeps = []\<rparr>,
             \<lparr>processed_skus = [100]\<rparr>)
   \<and> all_labelled labelled_catalog \<and> responsive labelled_catalog
   \<and> (\<exists>w2 checkpoint2.
         process_all labelled_catalog [100, 200] fresh \<lparr>processed_skus = [100]\<rparr>
           = Some (w2, checkpoint2)
         \<and> put_requests w2 = put_requests fresh)"
proof -
  let ?R = unlabelled_catalog
  let ?t = "''dipirona 500mg''"
  let ?name = "JStr ''Dipirona  500MG''"
  let ?img = "[(''Id'', JInt 1), (''Label'', JStr [])]"
  let ?u = "update_request 100 ?img ?t"
  let ?cp0 = "\<lparr>processed_skus = []\<rparr>"
  let ?cp1 = "\<lparr>processed_skus = [100]\<rparr>"
  let ?wa = "\<lparr>requests = [details_request 100], sleeps = []\<rparr>"
  let ?wb = "\<lparr>requests = [details_request 100, images_request 100], sleeps = []\<rparr>"
  let ?wc = "\<lparr>requests = [details_request 100, images_request 100, ?u], sleeps = []\<rparr>"
  let ?wd = "\<lparr>requests = [details_request 100, images_request 100, ?u, details_request 200],
              sleeps = []\<rparr>"
  let ?we = "\<lparr>requests = [details_request 100, images_request 100, ?u, details_request 200,
                images_request 200], sleeps = []\<rparr>"
  let ?details = "\<lparr>status_code = 200, retry_after_header = None,
                     body = JsonDict [(''ProductName'', JStr ''Dipirona  500MG'')]\<rparr>"
  let ?list = "\<lparr>status_code = 200, retry_after_header = None, body = JsonList [?img]\<rparr>"
  have n: "\<not> throttled (?R h)" for h
    by (simp add: unlabelled_catalog_def throttled_def split: url.splits)
  have od: "?R (h @ [details_request sku_id]) = Returns ?details" for h sku_id
    by (simp add: unlabelled_catalog_def details_request_def)
  have d100: "get_sku_details ?R 100 fresh = Some (Inr (?name, JNull), ?wa)"
    using get_sku_details_now [of ?R fresh 100 ?details, OF n od]
    by (simp add: fresh_def py_or_def dict_get_def dict_get_default_def)
  have d200: "get_sku_details ?R 200 ?wc = Some (Inr (?name, JNull), ?wd)"
    using get_sku_details_now [of ?R ?wc 200 ?details, OF n od]
    by (simp add: py_or_def dict_get_def dict_get_default_def)
  have oi: "?R [details_request 100, images_request 100] = Returns ?list"
    by (simp add: unlabelled_catalog_def images_request_def)
  have sr: "safe_request ?R (images_request 100) ?wa = Some (Some ?list, ?wb)"
    using safe_request_now [of ?R ?wa "images_request 100", OF n]
    by (simp add: oi answer_def)
  have a: "all_have_alt [?img] = Inr False"
    by (simp add: label_present_def dict_get_def dict_get_default_def)
  have t: "alt_text_of ?name 1 1 = Inr ?t"
    by (simp add: alt_text_of_def generate_natural_alt_text_def normalize_dipirona)
  have ou: "?R [details_request 100, images_request 100, ?u]
      = Returns \<lparr>status_code = 200, retry_after_header = None, body = JsonDict []\<rparr>"
    by (simp add: unlabelled_catalog_def update_request_def)
  have u: "update_image_alt ?R 100 ?img ?t ?wb = Some (True, ?wc)"
    using update_image_alt_now [of ?R ?wb 100 ?img ?t, OF n] by (simp add: ou)
  have f: "filter (needs_update ?t) [?img] = [?img]"
    by (simp add: needs_update_def dict_get_default_def)
  have ru: "run_updates ?R 100 ?t (filter (needs_update ?t) [?img]) ?wb = Some ([True], ?wc)"
    unfolding f by (simp add: u)
  have t': "alt_text_of ?name 1 (int (length [?img])) = Inr ?t"
    using t by simp
  have "process_sku_images ?R 100 ?name ?wa ?cp0
      = Some (Inr (\<forall>updated \<in> set [True]. updated), ?wc,
          if (\<forall>updated \<in> set [True]. updated) then mark_processed ?cp0 100 else ?cp0)"
    using sr _ _ _ a t' ru by (rule process_sku_images_update_phase) simp_all
  then have i100: "process_sku_images ?R 100 ?name ?wa ?cp0 = Some (Inr True, ?wc, ?cp1)"
    by (simp add: mark_processed_def)
  have p100: "process_single_sku ?R 100 fresh ?cp0 = Some (Inr True, ?wc, ?cp1)"
    by (simp add: process_single_sku_def is_processed_def d100 i100)
  have o500: "?R [details_request 100, images_request 100, ?u, details_request 200,
      images_request 200]
      = Returns \<lparr>status_code = 500, retry_after_header = None, body = NotJson\<rparr>"
    by (simp add: unlabelled_catalog_def images_request_def)
  have "process_sku_images ?R 200 ?name ?wd ?cp1
      = Some (Inr False, ?wd\<lparr>requests := requests ?wd @ [images_request 200]\<rparr>, ?cp1)"
    by (rule process_sku_images_client_error
          [where r = "\<lparr>status_code = 500, retry_after_header = None, body = NotJson\<rparr>"])
       (simp_all add: o500 throttled_def)
  then have i200: "process_sku_images ?R 200 ?name ?wd ?cp1 = Some (Inr False, ?we, ?cp1)"
    by simp
  have p200: "process_single_sku ?R 200 ?wc ?cp1 = Some (Inr False, ?we, ?cp1)"
    by (simp add: process_single_sku_def is_processed_def d200 i200)
  have first: "process_all ?R [100, 200] fresh ?cp0 = Some (?we, ?cp1)"
    by (simp add: p100 p200)
  have n2: "\<not> throttled (labelled_catalog h)" for h
    by (simp add: labelled_catalog_def throttled_def split: url.splits)
  have resp: "responsive labelled_catalog" using n2 by (rule never_throttled_responsive)
  have lab: "all_labelled labelled_catalog"
    unfolding all_labelled_def
    by (auto simp: labelled_catalog_def images_request_def labelled_image_def dict_get_def
        dict_get_default_def strip_dipirona)
  from rerun_issues_no_update [OF first lab resp, of fresh]
  have "\<exists>w2 checkpoint2.
         process_all labelled_catalog [100, 200] fresh ?cp1 = Some (w2, checkpoint2)
         \<and> put_requests w2 = put_requests fresh"
    by blast
  with first lab resp show ?thesis by simp
qed

end
